theory Spec2Isabelle
  imports Complex_Main
begin

section \<open>Data model of \<^verbatim>\<open>taichi/system/profiler.h\<close>\<close>

text \<open>
  The nodes of the accumulation tree live in an arena: a \<^verbatim>\<open>Node *\<close> is an index into the
  list of all nodes allocated so far, a null pointer is \<open>None\<close>. The owning
  \<^verbatim>\<open>std::vector<std::unique_ptr<Node>>\<close> of a node is the list of the addresses of its
  children, in insertion order. A \<^verbatim>\<open>float64\<close> value is a real; there is no infinity and no
  NaN. The clock readings, their differences and the sums of the samples are exact; the
  arithmetic of \<^verbatim>\<open>print\<close> rounds as \<^verbatim>\<open>float64\<close> arithmetic does (section Rendering).
  \<^verbatim>\<open>int64\<close> and \<^verbatim>\<open>int\<close> are modelled by \<open>int\<close>; an operation that would
  leave the range of the C++ type is undefined behaviour in C++ and is the error
  \<open>Overflow\<close> here. Dereferencing a null pointer is the error \<open>NullDeref\<close>, dereferencing an
  address that was never allocated is the error \<open>Dangling\<close>.
\<close>

type_synonym addr = nat

datatype error = AssertFailed string | NullDeref | Dangling | Overflow

definition INT64_MAX :: int where
  "INT64_MAX = 2 ^ 63 - 1"

definition INT_MAX :: int where
  "INT_MAX = 2 ^ 31 - 1"

definition INT_MIN :: int where
  "INT_MIN = - (2 ^ 31)"

text \<open>Addition on \<^verbatim>\<open>int\<close> and on \<^verbatim>\<open>int64\<close>, defined inside the range of the type only.\<close>

definition int_add :: "int \<Rightarrow> int \<Rightarrow> error + int" where
  "int_add a b = (if INT_MIN \<le> a + b \<and> a + b \<le> INT_MAX then Inr (a + b) else Inl Overflow)"

definition int64_add :: "int \<Rightarrow> int \<Rightarrow> error + int" where
  "int64_add a b =
     (if - INT64_MAX - 1 \<le> a + b \<and> a + b \<le> INT64_MAX then Inr (a + b) else Inl Overflow)"

record Node =
  childs :: "addr list"
  parent :: "addr option"
  name :: string
  total_time :: real
  num_samples :: int

record ProfilerRecords =
  heap :: "Node list"
  root_node :: addr
  current_node :: "addr option"
  current_depth :: int

record Profiler =
  start_time :: real
  prof_name :: string
  stopped :: bool

section \<open>\<^verbatim>\<open>ProfilerRecords::Node\<close>\<close>

text \<open>The constructor \<^verbatim>\<open>Node(name, parent)\<close>.\<close>

definition Node_new :: "string \<Rightarrow> addr option \<Rightarrow> Node" where
  "Node_new nm p =
     \<lparr>childs = [], parent = p, name = nm, total_time = 0, num_samples = 1\<rparr>"

definition deref :: "Node list \<Rightarrow> addr \<Rightarrow> error + Node" where
  "deref h a = (if a < length h then Inr (h ! a) else Inl Dangling)"

text \<open>\<^verbatim>\<open>Node::insert_sample\<close>: the counter is incremented first, then the sum.\<close>

definition Node_insert_sample :: "real \<Rightarrow> Node \<Rightarrow> error + Node" where
  "Node_insert_sample sample n =
     (case int64_add (num_samples n) 1 of
        Inl e \<Rightarrow> Inl e
      | Inr k \<Rightarrow> Inr (n\<lparr>num_samples := k, total_time := total_time n + sample\<rparr>))"

text \<open>\<^verbatim>\<open>Node::get_averaged\<close>, the quotient in exact arithmetic.\<close>

definition get_averaged :: "Node \<Rightarrow> real" where
  "get_averaged n = total_time n / real_of_int (max (num_samples n) 1)"

text \<open>The search loop of \<^verbatim>\<open>Node::get_child\<close> over the child list.\<close>

fun find_child :: "Node list \<Rightarrow> addr list \<Rightarrow> string \<Rightarrow> error + addr option" where
  "find_child h [] nm = Inr None"
| "find_child h (ch # chs) nm =
     (case deref h ch of
        Inl e \<Rightarrow> Inl e
      | Inr c \<Rightarrow> if name c = nm then Inr (Some ch) else find_child h chs nm)"

text \<open>
  \<^verbatim>\<open>Node::get_child\<close> on the node at address \<open>this\<close>: the child found, or a new node
  allocated at the end of the arena and appended to the child list of \<open>this\<close>.
\<close>

definition get_child :: "addr \<Rightarrow> string \<Rightarrow> Node list \<Rightarrow> error + (addr \<times> Node list)" where
  "get_child this nm h =
     (case deref h this of
        Inl e \<Rightarrow> Inl e
      | Inr n \<Rightarrow>
          (case find_child h (childs n) nm of
             Inl e \<Rightarrow> Inl e
           | Inr (Some ch) \<Rightarrow> Inr (ch, h)
           | Inr None \<Rightarrow>
               Inr (length h,
                    h[this := n\<lparr>childs := childs n @ [length h]\<rparr>] @ [Node_new nm (Some this)])))"

section \<open>\<^verbatim>\<open>ProfilerRecords\<close>\<close>

text \<open>The constructor; the singleton of \<^verbatim>\<open>get_instance\<close> starts in this state.\<close>

definition ProfilerRecords_new :: ProfilerRecords where
  "ProfilerRecords_new =
     \<lparr>heap = [Node_new ''[Taichi Profiler]'' None], root_node = 0,
      current_node = Some 0, current_depth = 0\<rparr>"

definition insert_sample :: "real \<Rightarrow> ProfilerRecords \<Rightarrow> error + ProfilerRecords" where
  "insert_sample time s =
     (case current_node s of
        None \<Rightarrow> Inl NullDeref
      | Some cur \<Rightarrow>
          (case deref (heap s) cur of
             Inl e \<Rightarrow> Inl e
           | Inr n \<Rightarrow>
               (case Node_insert_sample time n of
                  Inl e \<Rightarrow> Inl e
                | Inr n' \<Rightarrow> Inr (s\<lparr>heap := (heap s)[cur := n']\<rparr>))))"

definition push :: "string \<Rightarrow> ProfilerRecords \<Rightarrow> error + ProfilerRecords" where
  "push nm s =
     (case current_node s of
        None \<Rightarrow> Inl NullDeref
      | Some cur \<Rightarrow>
          (case get_child cur nm (heap s) of
             Inl e \<Rightarrow> Inl e
           | Inr (ch, h') \<Rightarrow>
               (case int_add (current_depth s) 1 of
                  Inl e \<Rightarrow> Inl e
                | Inr d \<Rightarrow> Inr (s\<lparr>heap := h', current_node := Some ch, current_depth := d\<rparr>))))"

definition pop :: "ProfilerRecords \<Rightarrow> error + ProfilerRecords" where
  "pop s =
     (case current_node s of
        None \<Rightarrow> Inl NullDeref
      | Some cur \<Rightarrow>
          (case deref (heap s) cur of
             Inl e \<Rightarrow> Inl e
           | Inr n \<Rightarrow>
               (case int_add (current_depth s) (- 1) of
                  Inl e \<Rightarrow> Inl e
                | Inr d \<Rightarrow> Inr (s\<lparr>current_node := parent n, current_depth := d\<rparr>))))"

section \<open>\<^verbatim>\<open>Profiler\<close>, the scoped region\<close>

text \<open>
  Modelled from the spec: the macro \<^verbatim>\<open>assert_info(cond, msg)\<close> of
  \<^verbatim>\<open>taichi/common/util.h\<close>, which is not part of the sources at hand. Following the
  spec (an assertion-style failure that halts with a diagnostic) it raises with the
  message when the condition is false and does nothing otherwise.
\<close>

definition assert_info :: "bool \<Rightarrow> string \<Rightarrow> error + unit" where
  "assert_info cond msg = (if cond then Inr () else Inl (AssertFailed msg))"

text \<open>
  The constructor. \<open>now\<close> is the value that \<^verbatim>\<open>Time::get_time()\<close> returns at this call; the
  singleton \<^verbatim>\<open>ProfilerRecords::get_instance()\<close> is passed and returned explicitly.
\<close>

definition Profiler_new ::
  "string \<Rightarrow> real \<Rightarrow> ProfilerRecords \<Rightarrow> error + (Profiler \<times> ProfilerRecords)" where
  "Profiler_new nm now s =
     (let p = \<lparr>start_time = now, prof_name = nm, stopped = False\<rparr>
      in case push nm s of
           Inl e \<Rightarrow> Inl e
         | Inr s' \<Rightarrow> Inr (p, s'))"

text \<open>\<^verbatim>\<open>Profiler::stop\<close>. No statement of the source assigns to \<^verbatim>\<open>stopped\<close>.\<close>

definition stop ::
  "real \<Rightarrow> Profiler \<Rightarrow> ProfilerRecords \<Rightarrow> error + (Profiler \<times> ProfilerRecords)" where
  "stop now p s =
     (case assert_info (\<not> stopped p) ''Profiler already stopped.'' of
        Inl e \<Rightarrow> Inl e
      | Inr _ \<Rightarrow>
          (let elapsed = now - start_time p
           in case insert_sample elapsed s of
                Inl e \<Rightarrow> Inl e
              | Inr s1 \<Rightarrow>
                  (case pop s1 of
                     Inl e \<Rightarrow> Inl e
                   | Inr s2 \<Rightarrow> Inr (p, s2))))"

text \<open>The destructor \<^verbatim>\<open>~Profiler\<close>.\<close>

definition Profiler_destroy ::
  "real \<Rightarrow> Profiler \<Rightarrow> ProfilerRecords \<Rightarrow> error + (Profiler \<times> ProfilerRecords)" where
  "Profiler_destroy now p s = (if \<not> stopped p then stop now p s else Inr (p, s))"

text \<open>
  A stream of calls on scope-bound regions. \<open>Begin nm now\<close> enters a new innermost scope
  and constructs a region named \<open>nm\<close> in it when the clock reads \<open>now\<close>. \<open>Stop now\<close>
  calls \<^verbatim>\<open>stop()\<close> on the region of the innermost scope; the region stays in scope.
  \<open>End now\<close> leaves the innermost scope, which runs the destructor of its region. The
  regions in scope are kept on a stack, innermost first. A \<open>Stop\<close> or an \<open>End\<close> with no
  region in scope has no object to act on and leaves the configuration as it is.
\<close>

datatype event = Begin string real | Stop real | End real

fun step ::
  "event \<Rightarrow> Profiler list \<times> ProfilerRecords \<Rightarrow> error + (Profiler list \<times> ProfilerRecords)" where
  "step (Begin nm now) (stk, s) =
     (case Profiler_new nm now s of
        Inl e \<Rightarrow> Inl e
      | Inr (p, s') \<Rightarrow> Inr (p # stk, s'))"
| "step (Stop now) ([], s) = Inr ([], s)"
| "step (Stop now) (p # stk, s) =
     (case stop now p s of
        Inl e \<Rightarrow> Inl e
      | Inr (p', s') \<Rightarrow> Inr (p' # stk, s'))"
| "step (End now) ([], s) = Inr ([], s)"
| "step (End now) (p # stk, s) =
     (case Profiler_destroy now p s of
        Inl e \<Rightarrow> Inl e
      | Inr (p', s') \<Rightarrow> Inr (stk, s'))"

fun run ::
  "event list \<Rightarrow> Profiler list \<times> ProfilerRecords \<Rightarrow> error + (Profiler list \<times> ProfilerRecords)" where
  "run [] cfg = Inr cfg"
| "run (e # es) cfg =
     (case step e cfg of
        Inl err \<Rightarrow> Inl err
      | Inr cfg' \<Rightarrow> run es cfg')"

text \<open>
  \<open>open_after\<close> recognises the streams in which every region is terminated by leaving its
  scope alone, with no explicit \<^verbatim>\<open>stop()\<close>, and no scope is left that was not entered; it
  counts the regions that are still in scope.
\<close>

fun open_after :: "nat \<Rightarrow> event list \<Rightarrow> nat option" where
  "open_after k [] = Some k"
| "open_after k (Begin nm now # es) = open_after (Suc k) es"
| "open_after k (Stop now # es) = None"
| "open_after 0 (End now # es) = None"
| "open_after (Suc k) (End now # es) = open_after k es"

section \<open>Rendering\<close>

text \<open>
  The output is the sequence of \<^verbatim>\<open>printf\<close> calls, each with its arguments:
  \<open>Indent\<close> is \<^verbatim>\<open>printf("  ")\<close>, \<open>Title nm\<close> is \<^verbatim>\<open>printf("%s\n", nm)\<close>,
  \<open>Plain t nm\<close> is \<^verbatim>\<open>printf("%6.2f %s\n", t, nm)\<close> and \<open>Pct v unit pct nm\<close> is
  \<^verbatim>\<open>printf("%6.2f%s %4.1f%%  %s\n", v, unit, pct, nm)\<close>. A print state is the profiler
  state together with everything printed so far.
\<close>

datatype out = Indent | Title string | Plain real string | Pct real string real string

type_synonym pstate = "ProfilerRecords \<times> out list"

text \<open>
  The literal \<^verbatim>\<open>1e-6f\<close> is single precision; converted to \<^verbatim>\<open>float64\<close> for the comparison
  its value is exactly \<open>8796093 / 2 ^ 43\<close>, slightly below \<open>1 / 10 ^ 6\<close>.
\<close>

definition threshold_1us :: real where
  "threshold_1us = 8796093 / 2 ^ 43"

text \<open>
  The arithmetic that \<^verbatim>\<open>print\<close> performs on the averaged times is \<^verbatim>\<open>float64\<close> arithmetic:
  the result of an operation is the exact result rounded to the nearest \<^verbatim>\<open>float64\<close>, ties
  to the even significand (IEEE 754, 53 bits, gradual underflow below \<open>2 ^ - 1022\<close>).
  Reals beyond the largest finite \<^verbatim>\<open>float64\<close> are outside the model: there is no infinity
  and no NaN. \<open>float64_exponent a\<close> is the \<open>e\<close> with \<open>2 ^ e \<le> a < 2 ^ (e + 1)\<close>, not
  below \<open>- 1022\<close>.
\<close>

definition pow2 :: "int \<Rightarrow> real" where
  "pow2 k = (if 0 \<le> k then 2 ^ nat k else 1 / 2 ^ nat (- k))"

fun exponent_up :: "nat \<Rightarrow> real \<Rightarrow> int" where
  "exponent_up 0 a = 0"
| "exponent_up (Suc n) a = (if a < 2 then 0 else 1 + exponent_up n (a / 2))"

fun exponent_down :: "nat \<Rightarrow> real \<Rightarrow> int" where
  "exponent_down 0 a = 0"
| "exponent_down (Suc n) a = (if 1 \<le> a then 0 else exponent_down n (a * 2) - 1)"

definition float64_exponent :: "real \<Rightarrow> int" where
  "float64_exponent a = (if 1 \<le> a then exponent_up 1023 a else exponent_down 1022 a)"

definition float64_round :: "real \<Rightarrow> real" where
  "float64_round x =
     (if x = 0 then 0
      else
        (let a = \<bar>x\<bar>;
             q = pow2 (float64_exponent a - 52);
             n = a / q;
             f = \<lfloor>n\<rfloor>;
             d = n - of_int f;
             r = (if d < 1 / 2 then f else if 1 / 2 < d then f + 1
                  else if even f then f else f + 1)
         in sgn x * (of_int r * q)))"

definition float64_sub :: "real \<Rightarrow> real \<Rightarrow> real" where
  "float64_sub a b = float64_round (a - b)"

definition float64_mul :: "real \<Rightarrow> real \<Rightarrow> real" where
  "float64_mul a b = float64_round (a * b)"

definition float64_div :: "real \<Rightarrow> real \<Rightarrow> real" where
  "float64_div a b = float64_round (a / b)"

text \<open>
  The double precision literals \<^verbatim>\<open>0.05\<close> and \<^verbatim>\<open>0.1\<close> are the \<^verbatim>\<open>float64\<close> values nearest to
  one twentieth and one tenth, both slightly above them. The literals \<^verbatim>\<open>100.0\<close>, 1 and
  1000 are exact; \<open>scale\<close> has the type \<^verbatim>\<open>real\<close> of the code base, a floating point type
  that holds 1 and 1000 exactly, and its product with a \<^verbatim>\<open>float64\<close> is taken in \<^verbatim>\<open>float64\<close>.
\<close>

definition literal_0_05 :: real where
  "literal_0_05 = 3602879701896397 / 2 ^ 56"

definition literal_0_1 :: real where
  "literal_0_1 = 3602879701896397 / 2 ^ 55"

text \<open>
  The \<^verbatim>\<open>float64\<close> that a call of \<^verbatim>\<open>get_averaged\<close> hands to \<^verbatim>\<open>print\<close>: the sample count is
  converted to \<^verbatim>\<open>float64\<close> and the quotient is rounded. On the states that the code can
  hold, where every total is a \<^verbatim>\<open>float64\<close> value, this is the value that the code computes.
\<close>

definition get_averaged_float64 :: "Node \<Rightarrow> real" where
  "get_averaged_float64 n =
     float64_div (total_time n) (float64_round (real_of_int (max (num_samples n) 1)))"

text \<open>The lambda \<^verbatim>\<open>make_indent\<close> of \<^verbatim>\<open>print\<close>, which captures \<open>depth\<close>.\<close>

definition make_indent :: "int \<Rightarrow> int \<Rightarrow> out list \<Rightarrow> error + out list" where
  "make_indent depth additional out =
     (case int_add depth additional of
        Inl e \<Rightarrow> Inl e
      | Inr k \<Rightarrow> Inr (out @ replicate (nat k) Indent))"

text \<open>
  The two loops over the children. \<open>rec\<close> is the recursive call of \<^verbatim>\<open>print\<close>; its result
  \<open>None\<close> stands for a call that does not return. The sum \<open>depth + 1\<close> passed to the
  recursive call has been computed by \<^verbatim>\<open>make_indent(1)\<close> just before.
\<close>

fun print_childs_plain ::
  "(addr \<Rightarrow> int \<Rightarrow> pstate \<Rightarrow> (error + pstate) option) \<Rightarrow>
     addr list \<Rightarrow> int \<Rightarrow> pstate \<Rightarrow> (error + pstate) option" where
  "print_childs_plain rec [] depth st = Some (Inr st)"
| "print_childs_plain rec (ch # chs) depth (s, out) =
     (case make_indent depth 1 out of
        Inl e \<Rightarrow> Some (Inl e)
      | Inr out1 \<Rightarrow>
          (case deref (heap s) ch of
             Inl e \<Rightarrow> Some (Inl e)
           | Inr c \<Rightarrow>
               (let child_time = get_averaged_float64 c
                in case rec ch (depth + 1) (s, out1 @ [Plain child_time (name c)]) of
                     None \<Rightarrow> None
                   | Some (Inl e) \<Rightarrow> Some (Inl e)
                   | Some (Inr st') \<Rightarrow> print_childs_plain rec chs depth st')))"

fun print_childs_pct ::
  "(addr \<Rightarrow> int \<Rightarrow> pstate \<Rightarrow> (error + pstate) option) \<Rightarrow>
     addr list \<Rightarrow> int \<Rightarrow> real \<Rightarrow> string \<Rightarrow> real \<Rightarrow> real \<Rightarrow> pstate \<Rightarrow>
     (error + (real \<times> pstate)) option" where
  "print_childs_pct rec [] depth total_time' unit scale unaccounted st = Some (Inr (unaccounted, st))"
| "print_childs_pct rec (ch # chs) depth total_time' unit scale unaccounted (s, out) =
     (case make_indent depth 1 out of
        Inl e \<Rightarrow> Some (Inl e)
      | Inr out1 \<Rightarrow>
          (case deref (heap s) ch of
             Inl e \<Rightarrow> Some (Inl e)
           | Inr c \<Rightarrow>
               (let child_time = get_averaged_float64 c
                in case rec ch (depth + 1)
                          (s, out1 @ [Pct (float64_mul child_time scale) unit
                                        (float64_div (float64_mul child_time 100) total_time')
                                        (name c)]) of
                     None \<Rightarrow> None
                   | Some (Inl e) \<Rightarrow> Some (Inl e)
                   | Some (Inr st') \<Rightarrow>
                       print_childs_pct rec chs depth total_time' unit scale
                         (float64_sub unaccounted child_time) st')))"

text \<open>The body of \<^verbatim>\<open>print(Node *node, int depth)\<close>.\<close>

definition print_body ::
  "(addr \<Rightarrow> int \<Rightarrow> pstate \<Rightarrow> (error + pstate) option) \<Rightarrow>
     addr \<Rightarrow> int \<Rightarrow> pstate \<Rightarrow> (error + pstate) option" where
  "print_body rec node depth st =
     (case st of (s, out) \<Rightarrow>
        (case deref (heap s) node of
           Inl e \<Rightarrow> Some (Inl e)
         | Inr n \<Rightarrow>
             (let total_time' = get_averaged_float64 n
              in case (if depth = 0
                       then (case make_indent depth 0 out of
                               Inl e \<Rightarrow> Inl e
                             | Inr out0 \<Rightarrow> Inr (out0 @ [Title (name n)]))
                       else Inr out) of
                   Inl e \<Rightarrow> Some (Inl e)
                 | Inr out1 \<Rightarrow>
                     if total_time' < threshold_1us
                     then print_childs_plain rec (childs n) depth (s, out1)
                     else
                       (let unit = (if total_time' < literal_0_1 then ''ms'' else ''s'');
                            scale = (if total_time' < literal_0_1 then 1000 else 1)
                        in case print_childs_pct rec (childs n) depth total_time' unit scale total_time'
                                  (s, out1) of
                             None \<Rightarrow> None
                           | Some (Inl e) \<Rightarrow> Some (Inl e)
                           | Some (Inr (unaccounted, (s2, out2))) \<Rightarrow>
                               if childs n \<noteq> [] \<and>
                                  unaccounted > float64_mul total_time' literal_0_05
                               then (case make_indent depth 1 out2 of
                                       Inl e \<Rightarrow> Some (Inl e)
                                     | Inr out3 \<Rightarrow>
                                         Some (Inr (s2, out3 @
                                           [Pct (float64_mul unaccounted scale) unit
                                              (float64_div (float64_mul unaccounted 100)
                                                 total_time')
                                              ''[unaccounted]''])))
                               else Some (Inr (s2, out2))))))"

text \<open>
  \<^verbatim>\<open>print(Node *node, int depth)\<close> with fuel for the depth of the recursion: the result is
  \<open>None\<close> when the fuel does not suffice.
\<close>

primrec print_node :: "nat \<Rightarrow> addr \<Rightarrow> int \<Rightarrow> pstate \<Rightarrow> (error + pstate) option" where
  "print_node 0 node depth st = None"
| "print_node (Suc fuel) node depth st = print_body (print_node fuel) node depth st"

text \<open>\<^verbatim>\<open>print()\<close>.\<close>

definition print_all :: "nat \<Rightarrow> pstate \<Rightarrow> (error + pstate) option" where
  "print_all fuel st = print_node fuel (root_node (fst st)) 0 st"

text \<open>What a call \<open>rec ch depth\<close> prints when it starts with nothing printed.\<close>

definition printed ::
  "(addr \<Rightarrow> int \<Rightarrow> pstate \<Rightarrow> (error + pstate) option) \<Rightarrow>
     addr \<Rightarrow> int \<Rightarrow> ProfilerRecords \<Rightarrow> out list" where
  "printed rec ch depth s =
     (case rec ch depth (s, []) of
        Some (Inr (s', out)) \<Rightarrow> out
      | _ \<Rightarrow> [])"

text \<open>
  The report as the specification words it, for comparison with \<^verbatim>\<open>print\<close>. The lines
  for the children of a node below the threshold: each child's averaged time in
  seconds, no percentage, one level deeper than the node, followed by what the
  recursive call prints for the child.
\<close>

definition spec_plain_lines ::
  "(addr \<Rightarrow> int \<Rightarrow> pstate \<Rightarrow> (error + pstate) option) \<Rightarrow>
     int \<Rightarrow> ProfilerRecords \<Rightarrow> addr list \<Rightarrow> out list" where
  "spec_plain_lines rec depth s chs =
     concat (map (\<lambda>ch. replicate (nat (depth + 1)) Indent @
                        [Plain (get_averaged_float64 (heap s ! ch)) (name (heap s ! ch))] @
                        printed rec ch (depth + 1) s) chs)"

text \<open>
  The lines for the children of any other node: each child's averaged time scaled to
  the unit of the node, the unit, the percentage of the node's averaged total and the
  name, followed by what the recursive call prints for the child.
\<close>

definition spec_pct_lines ::
  "(addr \<Rightarrow> int \<Rightarrow> pstate \<Rightarrow> (error + pstate) option) \<Rightarrow>
     int \<Rightarrow> real \<Rightarrow> string \<Rightarrow> real \<Rightarrow> ProfilerRecords \<Rightarrow> addr list \<Rightarrow> out list" where
  "spec_pct_lines rec depth total_time' unit scale s chs =
     concat (map (\<lambda>ch. replicate (nat (depth + 1)) Indent @
                        [Pct (float64_mul (get_averaged_float64 (heap s ! ch)) scale) unit
                           (float64_div (float64_mul (get_averaged_float64 (heap s ! ch)) 100)
                              total_time')
                           (name (heap s ! ch))] @
                        printed rec ch (depth + 1) s) chs)"

text \<open>
  The sum of the averaged times of the children in exact arithmetic, with the exact
  quotients \<open>get_averaged\<close>.
\<close>

definition childs_averaged :: "ProfilerRecords \<Rightarrow> addr list \<Rightarrow> real" where
  "childs_averaged s chs = sum_list (map (\<lambda>ch. get_averaged (heap s ! ch)) chs)"

text \<open>
  The remainder as the code computes it: starting from \<open>u\<close>, the averaged times of the
  children are subtracted one after the other, each difference rounded to \<^verbatim>\<open>float64\<close>.
\<close>

definition running_remainder :: "ProfilerRecords \<Rightarrow> real \<Rightarrow> addr list \<Rightarrow> real" where
  "running_remainder s u chs = foldl (\<lambda>u ch. float64_sub u (get_averaged_float64 (heap s ! ch))) u chs"

text \<open>Everything that the expansion of one node prints.\<close>

definition spec_node_lines ::
  "(addr \<Rightarrow> int \<Rightarrow> pstate \<Rightarrow> (error + pstate) option) \<Rightarrow>
     addr \<Rightarrow> int \<Rightarrow> ProfilerRecords \<Rightarrow> out list" where
  "spec_node_lines rec node depth s =
     (let n = heap s ! node;
          avg = get_averaged_float64 n;
          unit = (if avg < literal_0_1 then ''ms'' else ''s'');
          scale = (if avg < literal_0_1 then 1000 else 1);
          rest = running_remainder s avg (childs n)
      in (if depth = 0 then [Title (name n)] else []) @
         (if avg < threshold_1us then spec_plain_lines rec depth s (childs n)
          else spec_pct_lines rec depth avg unit scale s (childs n) @
               (if childs n \<noteq> [] \<and> rest > float64_mul avg literal_0_05
                then replicate (nat (depth + 1)) Indent @
                     [Pct (float64_mul rest scale) unit
                        (float64_div (float64_mul rest 100) avg) ''[unaccounted]'']
                else [])))"

text \<open>
  A call that, whenever it returns normally, leaves the profiler state as it is and
  only appends to the output, the same items whatever was printed before.
\<close>

definition only_appends :: "(addr \<Rightarrow> int \<Rightarrow> pstate \<Rightarrow> (error + pstate) option) \<Rightarrow> bool" where
  "only_appends rec \<longleftrightarrow>
     (\<forall>ch d s out s' out'.
        rec ch d (s, out) = Some (Inr (s', out')) \<longrightarrow>
        s' = s \<and> (\<forall>out2. rec ch d (s, out2) = Some (Inr (s, out2 @ printed rec ch d s))))"

section \<open>Well-formed and reachable states\<close>

text \<open>
  The shape that the constructor establishes and every operation keeps: the root has no
  parent, the cursor and all parent and child pointers point to allocated nodes, a child
  is allocated after its parent and points back to it.
\<close>

definition well_formed :: "ProfilerRecords \<Rightarrow> bool" where
  "well_formed s \<longleftrightarrow>
     root_node s < length (heap s) \<and>
     parent (heap s ! root_node s) = None \<and>
     (case current_node s of None \<Rightarrow> True | Some cur \<Rightarrow> cur < length (heap s)) \<and>
     (\<forall>a < length (heap s).
        (\<forall>c \<in> set (childs (heap s ! a)).
           a < c \<and> c < length (heap s) \<and> parent (heap s ! c) = Some a) \<and>
        (\<forall>p. parent (heap s ! a) = Some p \<longrightarrow> p < a))"

text \<open>\<open>anc h a k c\<close>: following the parent pointer \<open>k\<close> times from \<open>a\<close> ends at \<open>c\<close>.\<close>

fun anc :: "Node list \<Rightarrow> addr \<Rightarrow> nat \<Rightarrow> addr \<Rightarrow> bool" where
  "anc h a 0 c = (a = c)"
| "anc h a (Suc k) c =
     (a < length h \<and> (case parent (h ! a) of None \<Rightarrow> False | Some p \<Rightarrow> anc h p k c))"

text \<open>The states reachable from the constructor by the operations of \<^verbatim>\<open>ProfilerRecords\<close>.\<close>

inductive reachable :: "ProfilerRecords \<Rightarrow> bool" where
  reachable_new: "reachable ProfilerRecords_new"
| reachable_push: "reachable s \<Longrightarrow> push nm s = Inr s' \<Longrightarrow> reachable s'"
| reachable_pop: "reachable s \<Longrightarrow> pop s = Inr s' \<Longrightarrow> reachable s'"
| reachable_insert_sample: "reachable s \<Longrightarrow> insert_sample time s = Inr s' \<Longrightarrow> reachable s'"

text \<open>
  \<open>headroom s m\<close>: the counters of the state \<open>s\<close> are inside the range of their C++ types
  and stay there over \<open>m\<close> further increments.
\<close>

definition headroom :: "ProfilerRecords \<Rightarrow> nat \<Rightarrow> bool" where
  "headroom s m \<longleftrightarrow>
     INT_MIN \<le> current_depth s \<and> current_depth s + int m \<le> INT_MAX \<and>
     (\<forall>n \<in> set (heap s). - INT64_MAX - 1 \<le> num_samples n \<and>
                            num_samples n + int m \<le> INT64_MAX)"

section \<open>Concrete profiles\<close>

text \<open>
  A profile with several children per node. Region A runs for 1/2 second and contains
  B (1/8 second) and C (1/16 second); after it region D runs for 1/16 second and
  contains E and F (1/32 second each).
\<close>

definition scenario_wide :: ProfilerRecords where
  "scenario_wide =
     \<lparr>heap = [\<lparr>childs = [1, 4], parent = None, name = ''[Taichi Profiler]'', total_time = 0,
                num_samples = 1\<rparr>,
              \<lparr>childs = [2, 3], parent = Some 0, name = ''A'', total_time = 1 / 2,
                num_samples = 2\<rparr>,
              \<lparr>childs = [], parent = Some 1, name = ''B'', total_time = 1 / 8,
                num_samples = 2\<rparr>,
              \<lparr>childs = [], parent = Some 1, name = ''C'', total_time = 1 / 16,
                num_samples = 2\<rparr>,
              \<lparr>childs = [5, 6], parent = Some 0, name = ''D'', total_time = 1 / 16,
                num_samples = 2\<rparr>,
              \<lparr>childs = [], parent = Some 4, name = ''E'', total_time = 1 / 32,
                num_samples = 2\<rparr>,
              \<lparr>childs = [], parent = Some 4, name = ''F'', total_time = 1 / 32,
                num_samples = 2\<rparr>],
      root_node = 0, current_node = Some 0, current_depth = 0\<rparr>"

text \<open>
  A short region: A runs for \<open>1 / 2 ^ 20\<close> second, a little less than a microsecond, and
  contains B, which runs for \<open>1 / 2 ^ 22\<close> second.
\<close>

definition short_regions :: ProfilerRecords where
  "short_regions =
     \<lparr>heap = [\<lparr>childs = [1], parent = None, name = ''[Taichi Profiler]'', total_time = 0,
                num_samples = 1\<rparr>,
              \<lparr>childs = [2], parent = Some 0, name = ''A'', total_time = 1 / 2 ^ 20,
                num_samples = 2\<rparr>,
              \<lparr>childs = [], parent = Some 1, name = ''B'', total_time = 1 / 2 ^ 22,
                num_samples = 2\<rparr>],
      root_node = 0, current_node = Some 0, current_depth = 0\<rparr>"

text \<open>
  A profile at the boundary of the 5% test. Region A runs for 2 seconds, so its averaged
  total is 1. Its first child Z runs from 0 to \<open>7205759403792797 / 2 ^ 58\<close>, a little
  above 1/40 second; the children V, W, X and Y run for 1, 1/2, 1/4 and 1/8 second. All
  clock readings are \<^verbatim>\<open>float64\<close> values, and so are all differences, totals and averages.
\<close>

definition scenario_boundary :: ProfilerRecords where
  "scenario_boundary =
     \<lparr>heap = [\<lparr>childs = [1], parent = None, name = ''[Taichi Profiler]'', total_time = 0,
                num_samples = 1\<rparr>,
              \<lparr>childs = [2, 3, 4, 5, 6], parent = Some 0, name = ''A'', total_time = 2,
                num_samples = 2\<rparr>,
              \<lparr>childs = [], parent = Some 1, name = ''Z'',
                total_time = 7205759403792797 / 2 ^ 58, num_samples = 2\<rparr>,
              \<lparr>childs = [], parent = Some 1, name = ''V'', total_time = 1,
                num_samples = 2\<rparr>,
              \<lparr>childs = [], parent = Some 1, name = ''W'', total_time = 1 / 2,
                num_samples = 2\<rparr>,
              \<lparr>childs = [], parent = Some 1, name = ''X'', total_time = 1 / 4,
                num_samples = 2\<rparr>,
              \<lparr>childs = [], parent = Some 1, name = ''Y'', total_time = 1 / 8,
                num_samples = 2\<rparr>],
      root_node = 0, current_node = Some 0, current_depth = 0\<rparr>"

text \<open>
  A profile whose remainder is the literal \<^verbatim>\<open>0.05\<close> itself. The averaged total of A is 1;
  its children V, W, X and Y average 1/2, 1/4, 1/8 and 1/16 and its last child Z averages
  \<open>1 / 16 - 3602879701896397 / 2 ^ 56\<close>. All of these are \<^verbatim>\<open>float64\<close> values and every
  subtraction is exact.
\<close>

definition scenario_at_literal :: ProfilerRecords where
  "scenario_at_literal =
     \<lparr>heap = [\<lparr>childs = [1], parent = None, name = ''[Taichi Profiler]'', total_time = 0,
                num_samples = 1\<rparr>,
              \<lparr>childs = [2, 3, 4, 5, 6], parent = Some 0, name = ''A'', total_time = 2,
                num_samples = 2\<rparr>,
              \<lparr>childs = [], parent = Some 1, name = ''V'', total_time = 1,
                num_samples = 2\<rparr>,
              \<lparr>childs = [], parent = Some 1, name = ''W'', total_time = 1 / 2,
                num_samples = 2\<rparr>,
              \<lparr>childs = [], parent = Some 1, name = ''X'', total_time = 1 / 4,
                num_samples = 2\<rparr>,
              \<lparr>childs = [], parent = Some 1, name = ''Y'', total_time = 1 / 8,
                num_samples = 2\<rparr>,
              \<lparr>childs = [], parent = Some 1, name = ''Z'',
                total_time = 900719925474099 / 2 ^ 55, num_samples = 2\<rparr>],
      root_node = 0, current_node = Some 0, current_depth = 0\<rparr>"

text \<open>A root with the three children A, B and C.\<close>

definition three_children :: "Node list" where
  "three_children =
     [\<lparr>childs = [1, 2, 3], parent = None, name = ''[Taichi Profiler]'', total_time = 0,
        num_samples = 1\<rparr>,
      \<lparr>childs = [], parent = Some 0, name = ''A'', total_time = 0, num_samples = 1\<rparr>,
      \<lparr>childs = [], parent = Some 0, name = ''B'', total_time = 0, num_samples = 1\<rparr>,
      \<lparr>childs = [], parent = Some 0, name = ''C'', total_time = 0, num_samples = 1\<rparr>]"

section \<open>Lookup and creation of children\<close>

lemma find_child_None_iff:
  "find_child h chs nm = Inr None \<longleftrightarrow> (\<forall>c\<in>set chs. c < length h \<and> name (h ! c) \<noteq> nm)"
  by (induction chs) (auto simp: deref_def)

lemma find_child_Some:
  "find_child h chs nm = Inr (Some ch) \<Longrightarrow> ch \<in> set chs \<and> ch < length h \<and> name (h ! ch) = nm"
  by (induction chs) (auto simp: deref_def split: if_splits)

lemma find_child_valid:
  "\<forall>c\<in>set chs. c < length h \<Longrightarrow> \<exists>r. find_child h chs nm = Inr r"
  by (induction chs) (auto simp: deref_def)

lemma find_child_append_None:
  "find_child h chs nm = Inr None \<Longrightarrow> find_child h (chs @ xs) nm = find_child h xs nm"
  by (induction chs) (auto simp: deref_def split: if_splits)

lemma find_child_heap_cong:
  assumes "length h \<le> length h'" "\<forall>c\<in>set chs. c < length h \<longrightarrow> name (h' ! c) = name (h ! c)"
    and "find_child h chs nm = Inr r"
  shows "find_child h' chs nm = Inr r"
  using assms by (induction chs) (auto simp: deref_def split: if_splits)

lemma get_child_found:
  assumes "get_child this nm h = Inr (ch, h')"
  shows "this < length h \<and>
    ((find_child h (childs (h ! this)) nm = Inr (Some ch) \<and> h' = h) \<or>
     (find_child h (childs (h ! this)) nm = Inr None \<and> ch = length h \<and>
      h' = h[this := (h ! this)\<lparr>childs := childs (h ! this) @ [length h]\<rparr>] @ [Node_new nm (Some this)]))"
  using assms by (auto simp: get_child_def deref_def split: if_splits sum.splits option.splits)

lemma insert_sample_Inr:
  assumes "insert_sample t s = Inr s'"
  shows "\<exists>cur. current_node s = Some cur \<and> cur < length (heap s) \<and>
           num_samples (heap s ! cur) + 1 \<le> INT64_MAX \<and>
           s' = s\<lparr>heap := (heap s)[cur := (heap s ! cur)\<lparr>num_samples := num_samples (heap s ! cur) + 1,
                     total_time := total_time (heap s ! cur) + t\<rparr>]\<rparr>"
  using assms
  by (auto simp: insert_sample_def deref_def Node_insert_sample_def int64_add_def
      split: option.splits if_splits sum.splits)

lemma pop_Inr:
  assumes "pop s = Inr s'"
  shows "\<exists>cur. current_node s = Some cur \<and> cur < length (heap s) \<and>
           INT_MIN \<le> current_depth s - 1 \<and> current_depth s - 1 \<le> INT_MAX \<and>
           s' = s\<lparr>current_node := parent (heap s ! cur), current_depth := current_depth s - 1\<rparr>"
  using assms
  by (auto simp: pop_def deref_def int_add_def split: option.splits if_splits sum.splits)

lemma push_Inr:
  assumes "push nm s = Inr s'"
  shows "\<exists>cur ch h'. current_node s = Some cur \<and> get_child cur nm (heap s) = Inr (ch, h') \<and>
           INT_MIN \<le> current_depth s + 1 \<and> current_depth s + 1 \<le> INT_MAX \<and>
           s' = s\<lparr>heap := h', current_node := Some ch, current_depth := current_depth s + 1\<rparr>"
  using assms
  by (auto simp: push_def int_add_def split: option.splits if_splits sum.splits prod.splits)


lemma well_formedD:
  assumes "well_formed s"
  shows "root_node s < length (heap s)" "parent (heap s ! root_node s) = None"
    "\<And>cur. current_node s = Some cur \<Longrightarrow> cur < length (heap s)"
    "\<And>a c. a < length (heap s) \<Longrightarrow> c \<in> set (childs (heap s ! a)) \<Longrightarrow>
          a < c \<and> c < length (heap s) \<and> parent (heap s ! c) = Some a"
    "\<And>a p. a < length (heap s) \<Longrightarrow> parent (heap s ! a) = Some p \<Longrightarrow> p < a"
proof -
  have all: "root_node s < length (heap s) \<and>
     parent (heap s ! root_node s) = None \<and>
     (case current_node s of None \<Rightarrow> True | Some cur \<Rightarrow> cur < length (heap s)) \<and>
     (\<forall>a < length (heap s).
        (\<forall>c \<in> set (childs (heap s ! a)).
           a < c \<and> c < length (heap s) \<and> parent (heap s ! c) = Some a) \<and>
        (\<forall>p. parent (heap s ! a) = Some p \<longrightarrow> p < a))"
    using assms unfolding well_formed_def .
  show "root_node s < length (heap s)" using all by (rule conjunct1)
  show "parent (heap s ! root_node s) = None" using all[THEN conjunct2] by (rule conjunct1)
  have c: "case current_node s of None \<Rightarrow> True | Some cur \<Rightarrow> cur < length (heap s)"
    using all[THEN conjunct2, THEN conjunct2] by (rule conjunct1)
  show "\<And>cur. current_node s = Some cur \<Longrightarrow> cur < length (heap s)"
    using c by simp
  note q = all[THEN conjunct2, THEN conjunct2, THEN conjunct2, rule_format]
  show "\<And>a c. a < length (heap s) \<Longrightarrow> c \<in> set (childs (heap s ! a)) \<Longrightarrow>
          a < c \<and> c < length (heap s) \<and> parent (heap s ! c) = Some a"
    using q[THEN conjunct1, rule_format] .
  show "\<And>a p. a < length (heap s) \<Longrightarrow> parent (heap s ! a) = Some p \<Longrightarrow> p < a"
    using q[THEN conjunct2, rule_format] .
qed

lemma well_formedI:
  assumes "root_node s < length (heap s)" "parent (heap s ! root_node s) = None"
    "\<And>cur. current_node s = Some cur \<Longrightarrow> cur < length (heap s)"
    "\<And>a c. a < length (heap s) \<Longrightarrow> c \<in> set (childs (heap s ! a)) \<Longrightarrow>
          a < c \<and> c < length (heap s) \<and> parent (heap s ! c) = Some a"
    "\<And>a p. a < length (heap s) \<Longrightarrow> parent (heap s ! a) = Some p \<Longrightarrow> p < a"
  shows "well_formed s"
  unfolding well_formed_def
proof (intro conjI allI impI ballI)
  show "root_node s < length (heap s)" by (rule assms(1))
  show "parent (heap s ! root_node s) = None" by (rule assms(2))
  show "case current_node s of None \<Rightarrow> True | Some cur \<Rightarrow> cur < length (heap s)"
    using assms(3) by (cases "current_node s") simp_all
next
  fix a c assume "a < length (heap s)" "c \<in> set (childs (heap s ! a))"
  from assms(4)[OF this]
  show "a < c" "c < length (heap s)" "parent (heap s ! c) = Some a" by simp_all
next
  fix a p assume "a < length (heap s)" "parent (heap s ! a) = Some p"
  from assms(5)[OF this] show "p < a" .
qed

lemma well_formed_new: "well_formed ProfilerRecords_new"
  by (rule well_formedI) (simp_all add: ProfilerRecords_new_def Node_new_def)

lemma well_formed_insert_sample:
  assumes "well_formed s" "insert_sample t s = Inr s'"
  shows "well_formed s'"
proof -
  from insert_sample_Inr[OF assms(2)] obtain cur where
    c: "current_node s = Some cur" "cur < length (heap s)" and
    s': "s' = s\<lparr>heap := (heap s)[cur := (heap s ! cur)\<lparr>num_samples := num_samples (heap s ! cur) + 1,
                     total_time := total_time (heap s ! cur) + t\<rparr>]\<rparr>"
    by blast
  have chs: "\<And>a. a < length (heap s) \<Longrightarrow> childs (heap s' ! a) = childs (heap s ! a)"
    and par: "\<And>a. a < length (heap s) \<Longrightarrow> parent (heap s' ! a) = parent (heap s ! a)"
    using c by (simp_all add: s' nth_list_update)
  have len: "length (heap s') = length (heap s)" by (simp add: s')
  have oth: "root_node s' = root_node s" "current_node s' = current_node s" by (simp_all add: s')
  note w = well_formedD[OF assms(1)]
  show ?thesis
  proof (rule well_formedI)
    show "root_node s' < length (heap s')" using w(1) len oth by simp
    show "parent (heap s' ! root_node s') = None" using w(2) par[OF w(1)] oth by simp
    show "\<And>x. current_node s' = Some x \<Longrightarrow> x < length (heap s')"
      using w(3) len oth by simp
  next
    fix a x assume a: "a < length (heap s')" and x: "x \<in> set (childs (heap s' ! a))"
    from a have a': "a < length (heap s)" using len by simp
    from x have "x \<in> set (childs (heap s ! a))" using chs[OF a'] by simp
    from w(4)[OF a' this] have r: "a < x" "x < length (heap s)" "parent (heap s ! x) = Some a"
      by simp_all
    show "a < x \<and> x < length (heap s') \<and> parent (heap s' ! x) = Some a"
      using r par[OF r(2)] len by simp
  next
    fix a p assume a: "a < length (heap s')" and p: "parent (heap s' ! a) = Some p"
    from a have a': "a < length (heap s)" using len by simp
    from p have "parent (heap s ! a) = Some p" using par[OF a'] by simp
    from w(5)[OF a' this] show "p < a" .
  qed
qed

lemma well_formed_pop:
  assumes "well_formed s" "pop s = Inr s'"
  shows "well_formed s'"
proof -
  from pop_Inr[OF assms(2)] obtain cur where
    c: "current_node s = Some cur" "cur < length (heap s)" and
    s': "s' = s\<lparr>current_node := parent (heap s ! cur), current_depth := current_depth s - 1\<rparr>"
    by blast
  note w = well_formedD[OF assms(1)]
  have hs: "heap s' = heap s" "root_node s' = root_node s"
    "current_node s' = parent (heap s ! cur)" by (simp_all add: s')
  show ?thesis
  proof (rule well_formedI)
    show "root_node s' < length (heap s')" using w(1) unfolding hs .
    show "parent (heap s' ! root_node s') = None" using w(2) unfolding hs .
  next
    fix x assume "current_node s' = Some x"
    then have "parent (heap s ! cur) = Some x" unfolding hs .
    from w(5)[OF c(2) this] show "x < length (heap s')" using c(2) unfolding hs by simp
  next
    fix a x assume "a < length (heap s')" "x \<in> set (childs (heap s' ! a))"
    then show "a < x \<and> x < length (heap s') \<and> parent (heap s' ! x) = Some a"
      unfolding hs by (rule w(4))
  next
    fix a p assume "a < length (heap s')" "parent (heap s' ! a) = Some p"
    then show "p < a" unfolding hs by (rule w(5))
  qed
qed

lemma well_formed_push:
  assumes "well_formed s" "push nm s = Inr s'"
  shows "well_formed s'"
proof -
  from push_Inr[OF assms(2)] obtain cur ch h' where
    c: "current_node s = Some cur" and g: "get_child cur nm (heap s) = Inr (ch, h')" and
    s': "s' = s\<lparr>heap := h', current_node := Some ch, current_depth := current_depth s + 1\<rparr>"
    by blast
  let ?h = "heap s"
  note w = well_formedD[OF assms(1)]
  have hs: "heap s' = h'" "root_node s' = root_node s" "current_node s' = Some ch"
    by (simp_all add: s')
  from get_child_found[OF g] have lt: "cur < length ?h" and
    d: "(find_child ?h (childs (?h ! cur)) nm = Inr (Some ch) \<and> h' = ?h) \<or>
     (find_child ?h (childs (?h ! cur)) nm = Inr None \<and> ch = length ?h \<and>
      h' = ?h[cur := (?h ! cur)\<lparr>childs := childs (?h ! cur) @ [length ?h]\<rparr>] @ [Node_new nm (Some cur)])"
    by auto
  from d show ?thesis
  proof
    assume a: "find_child ?h (childs (?h ! cur)) nm = Inr (Some ch) \<and> h' = ?h"
    then have "ch \<in> set (childs (?h ! cur))" using find_child_Some by blast
    from w(4)[OF lt this] have chl: "ch < length ?h" by simp
    have h': "h' = ?h" using a by simp
    show ?thesis
    proof (rule well_formedI)
      show "root_node s' < length (heap s')" using w(1) unfolding hs h' .
      show "parent (heap s' ! root_node s') = None" using w(2) unfolding hs h' .
      show "\<And>x. current_node s' = Some x \<Longrightarrow> x < length (heap s')"
        using chl unfolding hs h' by simp
    next
      fix a x assume "a < length (heap s')" "x \<in> set (childs (heap s' ! a))"
      then show "a < x \<and> x < length (heap s') \<and> parent (heap s' ! x) = Some a"
        unfolding hs h' by (rule w(4))
    next
      fix a p assume "a < length (heap s')" "parent (heap s' ! a) = Some p"
      then show "p < a" unfolding hs h' by (rule w(5))
    qed
  next
    assume a: "find_child ?h (childs (?h ! cur)) nm = Inr None \<and> ch = length ?h \<and>
      h' = ?h[cur := (?h ! cur)\<lparr>childs := childs (?h ! cur) @ [length ?h]\<rparr>] @ [Node_new nm (Some cur)]"
    have len: "length h' = Suc (length ?h)" using a by simp
    have par: "\<And>a. a < length ?h \<Longrightarrow> parent (h' ! a) = parent (?h ! a)"
      using a lt by (simp add: nth_append nth_list_update)
    have parn: "parent (h' ! length ?h) = Some cur"
      using a by (simp add: nth_append Node_new_def)
    have ch1: "\<And>a. a < length ?h \<Longrightarrow> a \<noteq> cur \<Longrightarrow> childs (h' ! a) = childs (?h ! a)"
      using a by (simp add: nth_append nth_list_update)
    have ch2: "childs (h' ! cur) = childs (?h ! cur) @ [length ?h]"
      using a lt by (simp add: nth_append nth_list_update)
    have ch3: "childs (h' ! length ?h) = []"
      using a by (simp add: nth_append Node_new_def)
    have A: "\<And>a c. a < length h' \<Longrightarrow> c \<in> set (childs (h' ! a)) \<Longrightarrow>
          a < c \<and> c < length h' \<and> parent (h' ! c) = Some a"
    proof -
      fix a c assume al: "a < length h'" and cin: "c \<in> set (childs (h' ! a))"
      show "a < c \<and> c < length h' \<and> parent (h' ! c) = Some a"
      proof (cases "a = length ?h")
        case True then show ?thesis using cin ch3 by simp
      next
        case False
        then have al': "a < length ?h" using al len by simp
        show ?thesis
        proof (cases "c = length ?h")
          case True
          have "a = cur"
          proof (rule ccontr)
            assume "a \<noteq> cur"
            then have "c \<in> set (childs (?h ! a))" using cin ch1[OF al'] by simp
            from w(4)[OF al' this] True show False by simp
          qed
          then show ?thesis using True parn len lt by simp
        next
          case False
          have "c \<in> set (childs (?h ! a))"
          proof (cases "a = cur")
            case True then show ?thesis using cin ch2 False by simp
          next
            case False then show ?thesis using cin ch1[OF al'] by simp
          qed
          from w(4)[OF al' this] have r: "a < c" "c < length ?h" "parent (?h ! c) = Some a"
            by simp_all
          show ?thesis using r par[OF r(2)] len by simp
        qed
      qed
    qed
    have B: "\<And>a p. a < length h' \<Longrightarrow> parent (h' ! a) = Some p \<Longrightarrow> p < a"
    proof -
      fix a p assume al: "a < length h'" and pa: "parent (h' ! a) = Some p"
      show "p < a"
      proof (cases "a = length ?h")
        case True then show ?thesis using pa parn lt by simp
      next
        case False
        then have al': "a < length ?h" using al len by simp
        from pa have "parent (?h ! a) = Some p" using par[OF al'] by simp
        from w(5)[OF al' this] show ?thesis .
      qed
    qed
    show ?thesis
    proof (rule well_formedI)
      show "root_node s' < length (heap s')" using w(1) len hs by simp
      show "parent (heap s' ! root_node s') = None" using w(2) par[OF w(1)] hs by simp
      show "\<And>x. current_node s' = Some x \<Longrightarrow> x < length (heap s')"
        using a len hs by simp
    next
      fix a x assume "a < length (heap s')" "x \<in> set (childs (heap s' ! a))"
      then show "a < x \<and> x < length (heap s') \<and> parent (heap s' ! x) = Some a"
        unfolding hs by (rule A)
    next
      fix a p assume "a < length (heap s')" "parent (heap s' ! a) = Some p"
      then show "p < a" unfolding hs by (rule B)
    qed
  qed
qed

lemma reachable_well_formed: "reachable s \<Longrightarrow> well_formed s"
  by (induction rule: reachable.induct)
    (auto intro: well_formed_new well_formed_push well_formed_pop well_formed_insert_sample)

lemma get_child_twice:
  assumes "get_child this nm h = Inr (ch, h')"
  shows "get_child this nm h' = Inr (ch, h')"
proof -
  from get_child_found[OF assms] have lt: "this < length h" and
    d: "(find_child h (childs (h ! this)) nm = Inr (Some ch) \<and> h' = h) \<or>
     (find_child h (childs (h ! this)) nm = Inr None \<and> ch = length h \<and>
      h' = h[this := (h ! this)\<lparr>childs := childs (h ! this) @ [length h]\<rparr>] @ [Node_new nm (Some this)])"
    by auto
  from d show ?thesis
  proof
    assume "find_child h (childs (h ! this)) nm = Inr (Some ch) \<and> h' = h"
    then show ?thesis using lt by (simp add: get_child_def deref_def)
  next
    assume a: "find_child h (childs (h ! this)) nm = Inr None \<and> ch = length h \<and>
      h' = h[this := (h ! this)\<lparr>childs := childs (h ! this) @ [length h]\<rparr>] @ [Node_new nm (Some this)]"
    let ?chs = "childs (h ! this)"
    have names: "\<forall>c\<in>set ?chs. c < length h \<longrightarrow> name (h' ! c) = name (h ! c)"
      using a lt by (auto simp: nth_append nth_list_update)
    have "find_child h' ?chs nm = Inr None"
      using find_child_heap_cong[OF _ names, of nm None] a by simp
    then have "find_child h' (?chs @ [length h]) nm = find_child h' [length h] nm"
      by (rule find_child_append_None)
    also have "\<dots> = Inr (Some (length h))"
      using a by (simp add: deref_def nth_append Node_new_def)
    finally have f: "find_child h' (?chs @ [length h]) nm = Inr (Some (length h))" .
    have "childs (h' ! this) = ?chs @ [length h]" "this < length h'"
      using a lt by (auto simp: nth_append)
    then show ?thesis using f a by (simp add: get_child_def deref_def)
  qed
qed

lemma find_child_first:
  assumes "\<forall>c\<in>set pre. c < length h \<and> name (h ! c) \<noteq> nm" "ch < length h" "name (h ! ch) = nm"
  shows "find_child h (pre @ ch # post) nm = Inr (Some ch)"
  using assms by (induction pre) (simp_all add: deref_def)

text \<open>
  Claim C5. \<^verbatim>\<open>get_child\<close> is an idempotent lookup. On a parent whose children are all
  allocated the call returns a node \<open>ch\<close> that carries the requested name and is a child
  of the parent, and the same call repeated returns \<open>ch\<close> again and changes nothing.
  When the parent has a child of that name, \<open>ch\<close> is the first such child and the heap
  is left as it is. When no child of the parent has that name, \<open>ch\<close> is a node that was
  not allocated before, with the parent as its back-reference, no time and one sample;
  it is appended at the end of the child list of the parent and every other node is
  left as it is.
\<close>

theorem get_child_idempotent_creates:
  assumes "this < length h" "\<forall>c\<in>set (childs (h ! this)). c < length h"
  shows "\<exists>ch h'. get_child this nm h = Inr (ch, h') \<and> get_child this nm h' = Inr (ch, h') \<and>
           ch < length h' \<and> name (h' ! ch) = nm \<and> ch \<in> set (childs (h' ! this)) \<and>
           (\<forall>pre c post.
              childs (h ! this) = pre @ c # post \<and> (\<forall>x\<in>set pre. name (h ! x) \<noteq> nm) \<and>
              name (h ! c) = nm \<longrightarrow> ch = c \<and> h' = h) \<and>
           ((\<forall>c\<in>set (childs (h ! this)). name (h ! c) \<noteq> nm) \<longrightarrow>
              ch = length h \<and> length h' = length h + 1 \<and>
              h' ! ch = \<lparr>childs = [], parent = Some this, name = nm, total_time = 0,
                         num_samples = 1\<rparr> \<and>
              h' ! this = (h ! this)\<lparr>childs := childs (h ! this) @ [ch]\<rparr> \<and>
              (\<forall>a<length h. a \<noteq> this \<longrightarrow> h' ! a = h ! a))"
proof -
  let ?chs = "childs (h ! this)"
  from find_child_valid[OF assms(2), of nm] obtain r where r: "find_child h ?chs nm = Inr r"
    by blast
  show ?thesis
  proof (cases r)
    case None
    have nn: "\<forall>c\<in>set ?chs. name (h ! c) \<noteq> nm"
      using r None find_child_None_iff[of h ?chs nm] by simp
    let ?h' = "h[this := (h ! this)\<lparr>childs := ?chs @ [length h]\<rparr>] @ [Node_new nm (Some this)]"
    have g: "get_child this nm h = Inr (length h, ?h')"
      using r None assms(1) by (simp add: get_child_def deref_def)
    have g2: "get_child this nm ?h' = Inr (length h, ?h')" using g by (rule get_child_twice)
    have p1: "length h < length ?h'" "name (?h' ! length h) = nm"
      "length h \<in> set (childs (?h' ! this))"
      using assms(1) by (simp_all add: nth_append Node_new_def)
    have p2: "\<forall>pre c post.
              ?chs = pre @ c # post \<and> (\<forall>x\<in>set pre. name (h ! x) \<noteq> nm) \<and>
              name (h ! c) = nm \<longrightarrow> length h = c \<and> ?h' = h"
      using nn by auto
    have p3: "length ?h' = length h + 1"
      "?h' ! length h = \<lparr>childs = [], parent = Some this, name = nm, total_time = 0,
                         num_samples = 1\<rparr>"
      "?h' ! this = (h ! this)\<lparr>childs := ?chs @ [length h]\<rparr>"
      "\<forall>a<length h. a \<noteq> this \<longrightarrow> ?h' ! a = h ! a"
      using assms(1) by (simp_all add: nth_append Node_new_def)
    show ?thesis
      using g g2 p1 p2 p3 by blast
  next
    case (Some c0)
    from find_child_Some[OF r[unfolded Some]] have c0: "c0 \<in> set ?chs" "c0 < length h"
      "name (h ! c0) = nm" by simp_all
    have g: "get_child this nm h = Inr (c0, h)"
      using r Some assms(1) by (simp add: get_child_def deref_def)
    have p2: "\<forall>pre c post.
              ?chs = pre @ c # post \<and> (\<forall>x\<in>set pre. name (h ! x) \<noteq> nm) \<and>
              name (h ! c) = nm \<longrightarrow> c0 = c \<and> h = h"
    proof (intro allI impI)
      fix pre c post
      assume a: "?chs = pre @ c # post \<and> (\<forall>x\<in>set pre. name (h ! x) \<noteq> nm) \<and> name (h ! c) = nm"
      then have b: "\<forall>x\<in>set pre. x < length h \<and> name (h ! x) \<noteq> nm" "c < length h"
        "name (h ! c) = nm"
        using assms(2) by auto
      have "find_child h (pre @ c # post) nm = Inr (Some c)"
        using b by (rule find_child_first)
      then have "find_child h ?chs nm = Inr (Some c)" using a by simp
      then show "c0 = c \<and> h = h" using r Some by simp
    qed
    have p3: "(\<forall>c\<in>set ?chs. name (h ! c) \<noteq> nm) \<longrightarrow>
              c0 = length h \<and> length h = length h + 1 \<and>
              h ! c0 = \<lparr>childs = [], parent = Some this, name = nm, total_time = 0,
                         num_samples = 1\<rparr> \<and>
              h ! this = (h ! this)\<lparr>childs := ?chs @ [c0]\<rparr> \<and>
              (\<forall>a<length h. a \<noteq> this \<longrightarrow> h ! a = h ! a)"
      using c0 by blast
    show ?thesis
      using g c0 p2 p3 by blast
  qed
qed

theorem get_child_idempotent_creates_witness:
  "length three_children = 4 \<and> childs (three_children ! 0) = [1, 2, 3] \<and>
   get_child 0 ''B'' three_children = Inr (2, three_children) \<and>
   name (three_children ! 2) = ''B'' \<and>
   get_child 0 ''D'' three_children =
     Inr (4, three_children[0 := (three_children ! 0)\<lparr>childs := [1, 2, 3, 4]\<rparr>] @
             [\<lparr>childs = [], parent = Some 0, name = ''D'', total_time = 0, num_samples = 1\<rparr>]) \<and>
   get_child 0 ''D''
     (three_children[0 := (three_children ! 0)\<lparr>childs := [1, 2, 3, 4]\<rparr>] @
        [\<lparr>childs = [], parent = Some 0, name = ''D'', total_time = 0, num_samples = 1\<rparr>]) =
     Inr (4, three_children[0 := (three_children ! 0)\<lparr>childs := [1, 2, 3, 4]\<rparr>] @
             [\<lparr>childs = [], parent = Some 0, name = ''D'', total_time = 0, num_samples = 1\<rparr>])"
proof -
  have h1: "0 < length three_children" by (simp add: three_children_def)
  have h2: "\<forall>c\<in>set (childs (three_children ! 0)). c < length three_children"
    by (simp add: three_children_def)
  have pB: "childs (three_children ! 0) = [1] @ 2 # [3] \<and>
      (\<forall>x\<in>set [1]. name (three_children ! x) \<noteq> ''B'') \<and> name (three_children ! 2) = ''B''"
    by (simp add: three_children_def)
  have pD: "\<forall>c\<in>set (childs (three_children ! 0)). name (three_children ! c) \<noteq> ''D''"
    by (simp add: three_children_def)
  from get_child_idempotent_creates[OF h1 h2, of "''B''"] pB
  have gB: "get_child 0 ''B'' three_children = Inr (2, three_children)" by blast
  from get_child_idempotent_creates[OF h1 h2, of "''D''"] pD obtain h' where
    gD: "get_child 0 ''D'' three_children = Inr (length three_children, h')"
      "get_child 0 ''D'' h' = Inr (length three_children, h')" by blast
  have eD: "get_child 0 ''D'' three_children =
     Inr (4, three_children[0 := (three_children ! 0)\<lparr>childs := [1, 2, 3, 4]\<rparr>] @
             [\<lparr>childs = [], parent = Some 0, name = ''D'', total_time = 0, num_samples = 1\<rparr>])"
    by (simp add: get_child_def deref_def three_children_def Node_new_def)
  from gD eD have "h' = three_children[0 := (three_children ! 0)\<lparr>childs := [1, 2, 3, 4]\<rparr>] @
             [\<lparr>childs = [], parent = Some 0, name = ''D'', total_time = 0, num_samples = 1\<rparr>]"
    "length three_children = 4" by simp_all
  moreover have "childs (three_children ! 0) = [1, 2, 3]" by (simp add: three_children_def)
  ultimately show ?thesis using gB gD eD pB by simp
qed

section \<open>Stopping a region more than once\<close>

lemma stop_keeps_handle:
  assumes "stop now p s = Inr (p', s')"
  shows "p' = p \<and> \<not> stopped p'"
  using assms by (auto simp: stop_def assert_info_def split: if_splits sum.splits)

text \<open>
  Claim C1 asks that a second \<^verbatim>\<open>stop()\<close> on the same region fails the assertion. The
  source never sets \<^verbatim>\<open>stopped\<close>, so the assertion of the second call holds: after
  \<^verbatim>\<open>Profiler p("A"); p.stop(); p.stop();\<close> on a fresh profiler, with the clock reading
  0, 1 and 2, the second call returns normally; it has inserted its sample into the
  root and moved the cursor to the null parent of the root.
\<close>

theorem stop_twice_returns:
  "(case Profiler_new ''A'' 0 ProfilerRecords_new of
      Inl e \<Rightarrow> Inl e
    | Inr (p, s1) \<Rightarrow>
        (case stop 1 p s1 of
           Inl e \<Rightarrow> Inl e
         | Inr (p', s2) \<Rightarrow> stop 2 p' s2)) =
   Inr (\<lparr>start_time = 0, prof_name = ''A'', stopped = False\<rparr>,
        \<lparr>heap = [\<lparr>childs = [1], parent = None, name = ''[Taichi Profiler]'',
                   total_time = 2, num_samples = 2\<rparr>,
                 \<lparr>childs = [], parent = Some 0, name = ''A'', total_time = 1,
                   num_samples = 2\<rparr>],
          root_node = 0, current_node = None, current_depth = - 1\<rparr>)"
  by (simp add: Profiler_new_def push_def get_child_def deref_def ProfilerRecords_new_def
      Node_new_def stop_def assert_info_def insert_sample_def Node_insert_sample_def pop_def
      int_add_def int64_add_def INT64_MAX_def INT_MAX_def INT_MIN_def)

text \<open>
  Claim C2 asks that the destructor does nothing after an explicit \<^verbatim>\<open>stop()\<close>. Since
  \<^verbatim>\<open>stopped\<close> is still false, the destructor calls \<^verbatim>\<open>stop()\<close> again: after
  \<^verbatim>\<open>{ Profiler p("A"); p.stop(); }\<close> on a fresh profiler, with the clock reading 0, 1 and
  2, two samples have been inserted (one into the node of the region, one into the
  root) and the cursor has been popped twice, past the root.
\<close>

theorem stop_then_destroy_terminates_twice:
  "(case Profiler_new ''A'' 0 ProfilerRecords_new of
      Inl e \<Rightarrow> Inl e
    | Inr (p, s1) \<Rightarrow>
        (case stop 1 p s1 of
           Inl e \<Rightarrow> Inl e
         | Inr (p', s2) \<Rightarrow> Profiler_destroy 2 p' s2)) =
   Inr (\<lparr>start_time = 0, prof_name = ''A'', stopped = False\<rparr>,
        \<lparr>heap = [\<lparr>childs = [1], parent = None, name = ''[Taichi Profiler]'',
                   total_time = 2, num_samples = 2\<rparr>,
                 \<lparr>childs = [], parent = Some 0, name = ''A'', total_time = 1,
                   num_samples = 2\<rparr>],
          root_node = 0, current_node = None, current_depth = - 1\<rparr>)"
  by (simp add: Profiler_new_def push_def get_child_def deref_def ProfilerRecords_new_def
      Node_new_def stop_def assert_info_def insert_sample_def Node_insert_sample_def pop_def
      int_add_def int64_add_def INT64_MAX_def INT_MAX_def INT_MIN_def Profiler_destroy_def)

section \<open>Steps of the operations on well-formed states\<close>

lemma anc_mono:
  assumes "length h \<le> length h'" "\<And>x. x < length h \<Longrightarrow> parent (h' ! x) = parent (h ! x)"
    and "anc h a k c"
  shows "anc h' a k c"
  using assms(3)
proof (induction k arbitrary: a)
  case 0
  then show ?case by simp
next
  case (Suc k)
  from Suc.prems have a: "a < length h" by simp
  from Suc.prems obtain p where p: "parent (h ! a) = Some p" "anc h p k c"
    by (auto split: option.splits)
  have "anc h' p k c" using Suc.IH p(2) by simp
  then show ?case using a p(1) assms(1) assms(2)[OF a] by simp
qed

lemma anc_root:
  assumes "well_formed s" "anc (heap s) a k (root_node s)"
  shows "a = root_node s \<longleftrightarrow> k = 0"
proof (cases k)
  case 0
  then show ?thesis using assms(2) by simp
next
  case (Suc j)
  then have "parent (heap s ! a) \<noteq> None" using assms(2) by (auto split: option.splits)
  then have "a \<noteq> root_node s" using well_formedD(2)[OF assms(1)] by auto
  then show ?thesis using Suc by simp
qed

lemma push_step:
  assumes "well_formed s" "current_node s = Some a"
  shows "push nm s = Inl Overflow \<or>
    (\<exists>s'. push nm s = Inr s' \<and> well_formed s' \<and> root_node s' = root_node s \<and>
       current_depth s' = current_depth s + 1 \<and>
       length (heap s) \<le> length (heap s') \<and>
       (\<forall>x<length (heap s). parent (heap s' ! x) = parent (heap s ! x)) \<and>
       (\<exists>a'. current_node s' = Some a' \<and> a' < length (heap s') \<and>
             parent (heap s' ! a') = Some a))"
proof -
  note w = well_formedD[OF assms(1)]
  have al: "a < length (heap s)" using w(3) assms(2) by simp
  have "\<forall>c\<in>set (childs (heap s ! a)). c < length (heap s)"
    using w(4)[OF al] by simp
  from find_child_valid[OF this] obtain r where
    r: "find_child (heap s) (childs (heap s ! a)) nm = Inr r" by blast
  then obtain ch h' where g: "get_child a nm (heap s) = Inr (ch, h')"
    using al by (cases r) (auto simp: get_child_def deref_def)
  show ?thesis
  proof (cases "int_add (current_depth s) 1")
    case (Inl e)
    then have "e = Overflow" by (auto simp: int_add_def split: if_splits)
    then show ?thesis using Inl g assms(2) by (simp add: push_def)
  next
    case (Inr d)
    then have d: "d = current_depth s + 1" by (auto simp: int_add_def split: if_splits)
    let ?s' = "s\<lparr>heap := h', current_node := Some ch, current_depth := d\<rparr>"
    have p: "push nm s = Inr ?s'" using Inr g assms(2) by (simp add: push_def)
    have wf': "well_formed ?s'" using well_formed_push[OF assms(1) p] .
    from get_child_found[OF g] have
      dd: "(find_child (heap s) (childs (heap s ! a)) nm = Inr (Some ch) \<and> h' = heap s) \<or>
     (find_child (heap s) (childs (heap s ! a)) nm = Inr None \<and> ch = length (heap s) \<and>
      h' = (heap s)[a := (heap s ! a)\<lparr>childs := childs (heap s ! a) @ [length (heap s)]\<rparr>] @ [Node_new nm (Some a)])"
      by auto
    have len: "length (heap s) \<le> length h'" using dd by auto
    have par: "\<forall>x<length (heap s). parent (h' ! x) = parent (heap s ! x)"
      using dd al by (auto simp: nth_append nth_list_update)
    have chp: "ch < length h' \<and> parent (h' ! ch) = Some a"
    proof -
      from dd show ?thesis
      proof
        assume f: "find_child (heap s) (childs (heap s ! a)) nm = Inr (Some ch) \<and> h' = heap s"
        then have "ch \<in> set (childs (heap s ! a))" using find_child_Some by blast
        from w(4)[OF al this] f show ?thesis by simp
      next
        assume "find_child (heap s) (childs (heap s ! a)) nm = Inr None \<and> ch = length (heap s) \<and>
      h' = (heap s)[a := (heap s ! a)\<lparr>childs := childs (heap s ! a) @ [length (heap s)]\<rparr>] @ [Node_new nm (Some a)]"
        then show ?thesis by (simp add: nth_append Node_new_def)
      qed
    qed
    show ?thesis
      using p wf' len par chp d by simp
  qed
qed

lemma insert_sample_step:
  assumes "well_formed s" "current_node s = Some a"
  shows "insert_sample t s = Inl Overflow \<or>
    (\<exists>s'. insert_sample t s = Inr s' \<and> well_formed s' \<and> root_node s' = root_node s \<and>
       current_depth s' = current_depth s \<and> current_node s' = Some a \<and>
       length (heap s') = length (heap s) \<and>
       (\<forall>x<length (heap s). parent (heap s' ! x) = parent (heap s ! x)))"
proof -
  note w = well_formedD[OF assms(1)]
  have al: "a < length (heap s)" using w(3) assms(2) by simp
  show ?thesis
  proof (cases "int64_add (num_samples (heap s ! a)) 1")
    case (Inl e)
    then have "e = Overflow" by (auto simp: int64_add_def split: if_splits)
    then show ?thesis using Inl al assms(2)
      by (simp add: insert_sample_def deref_def Node_insert_sample_def)
  next
    case (Inr k)
    let ?s' = "s\<lparr>heap := (heap s)[a := (heap s ! a)\<lparr>num_samples := k,
                     total_time := total_time (heap s ! a) + t\<rparr>]\<rparr>"
    have p: "insert_sample t s = Inr ?s'" using Inr al assms(2)
      by (simp add: insert_sample_def deref_def Node_insert_sample_def)
    have wf': "well_formed ?s'" using well_formed_insert_sample[OF assms(1) p] .
    have par: "\<forall>x<length (heap s). parent (heap ?s' ! x) = parent (heap s ! x)"
      using al by (simp add: nth_list_update)
    show ?thesis using p wf' par assms(2) by simp
  qed
qed

lemma pop_step:
  assumes "well_formed s" "current_node s = Some a"
  shows "pop s = Inl Overflow \<or>
    (\<exists>s'. pop s = Inr s' \<and> well_formed s' \<and> root_node s' = root_node s \<and>
       current_depth s' = current_depth s - 1 \<and> current_node s' = parent (heap s ! a) \<and>
       heap s' = heap s)"
proof -
  note w = well_formedD[OF assms(1)]
  have al: "a < length (heap s)" using w(3) assms(2) by simp
  show ?thesis
  proof (cases "int_add (current_depth s) (- 1)")
    case (Inl e)
    then have "e = Overflow" by (auto simp: int_add_def split: if_splits)
    then show ?thesis using Inl al assms(2) by (simp add: pop_def deref_def)
  next
    case (Inr d)
    then have d: "d = current_depth s - 1" by (auto simp: int_add_def split: if_splits)
    let ?s' = "s\<lparr>current_node := parent (heap s ! a), current_depth := d\<rparr>"
    have p: "pop s = Inr ?s'" using Inr al assms(2) by (simp add: pop_def deref_def)
    have wf': "well_formed ?s'" using well_formed_pop[OF assms(1) p] .
    show ?thesis using p wf' d by simp
  qed
qed

lemma Profiler_new_step:
  assumes "well_formed s" "current_node s = Some a"
  shows "Profiler_new nm now s = Inl Overflow \<or>
    (\<exists>p s'. Profiler_new nm now s = Inr (p, s') \<and> \<not> stopped p \<and> start_time p = now \<and>
       well_formed s' \<and> root_node s' = root_node s \<and>
       length (heap s) \<le> length (heap s') \<and>
       (\<forall>x<length (heap s). parent (heap s' ! x) = parent (heap s ! x)) \<and>
       (\<exists>a'. current_node s' = Some a' \<and> a' < length (heap s') \<and>
             parent (heap s' ! a') = Some a))"
  using push_step[OF assms, of nm] by (auto simp: Profiler_new_def)

lemma stop_step:
  assumes "well_formed s" "current_node s = Some a" "\<not> stopped p"
  shows "stop now p s = Inl Overflow \<or>
    (\<exists>s'. stop now p s = Inr (p, s') \<and> well_formed s' \<and> root_node s' = root_node s \<and>
       length (heap s') = length (heap s) \<and>
       (\<forall>x<length (heap s). parent (heap s' ! x) = parent (heap s ! x)) \<and>
       current_node s' = parent (heap s ! a))"
proof -
  let ?t = "now - start_time p"
  from insert_sample_step[OF assms(1,2), of ?t]
  show ?thesis
  proof
    assume "insert_sample ?t s = Inl Overflow"
    then show ?thesis using assms(3) by (simp add: stop_def assert_info_def)
  next
    assume "\<exists>s'. insert_sample ?t s = Inr s' \<and> well_formed s' \<and> root_node s' = root_node s \<and>
       current_depth s' = current_depth s \<and> current_node s' = Some a \<and>
       length (heap s') = length (heap s) \<and>
       (\<forall>x<length (heap s). parent (heap s' ! x) = parent (heap s ! x))"
    then obtain s1 where s1: "insert_sample ?t s = Inr s1" "well_formed s1"
      "root_node s1 = root_node s" "current_node s1 = Some a"
      "length (heap s1) = length (heap s)"
      "\<forall>x<length (heap s). parent (heap s1 ! x) = parent (heap s ! x)"
      by blast
    have al: "a < length (heap s)" using well_formedD(3)[OF assms(1)] assms(2) by simp
    from pop_step[OF s1(2,4)] show ?thesis
    proof
      assume "pop s1 = Inl Overflow"
      then show ?thesis using assms(3) s1(1) by (simp add: stop_def assert_info_def)
    next
      assume "\<exists>s'. pop s1 = Inr s' \<and> well_formed s' \<and> root_node s' = root_node s1 \<and>
       current_depth s' = current_depth s1 - 1 \<and> current_node s' = parent (heap s1 ! a) \<and>
       heap s' = heap s1"
      then obtain s2 where s2: "pop s1 = Inr s2" "well_formed s2" "root_node s2 = root_node s1"
        "current_node s2 = parent (heap s1 ! a)" "heap s2 = heap s1" by blast
      have "stop now p s = Inr (p, s2)"
        using assms(3) s1(1) s2(1) by (simp add: stop_def assert_info_def)
      then show ?thesis using s2 s1 al by simp
    qed
  qed
qed

section \<open>The balance law of nested regions\<close>

lemma run_nested:
  assumes "well_formed s" "current_node s = Some a" "anc (heap s) a j c"
    "open_after j es = Some k" "length stk = j" "\<forall>p\<in>set stk. \<not> stopped p"
  shows "run es (stk, s) = Inl Overflow \<or>
    (\<exists>stk' s'. run es (stk, s) = Inr (stk', s') \<and> well_formed s' \<and>
       root_node s' = root_node s \<and> length stk' = k \<and>
       (\<exists>a'. current_node s' = Some a' \<and> anc (heap s') a' k c))"
  using assms
proof (induction es arbitrary: s a j stk)
  case Nil
  then show ?case by simp
next
  case (Cons e es)
  show ?case
  proof (cases e)
    case (Begin nm now)
    from Profiler_new_step[OF Cons.prems(1,2), of nm now]
    show ?thesis
    proof
      assume "Profiler_new nm now s = Inl Overflow"
      then show ?thesis using Begin by simp
    next
      assume "\<exists>p s'. Profiler_new nm now s = Inr (p, s') \<and> \<not> stopped p \<and> start_time p = now \<and>
       well_formed s' \<and> root_node s' = root_node s \<and>
       length (heap s) \<le> length (heap s') \<and>
       (\<forall>x<length (heap s). parent (heap s' ! x) = parent (heap s ! x)) \<and>
       (\<exists>a'. current_node s' = Some a' \<and> a' < length (heap s') \<and>
             parent (heap s' ! a') = Some a)"
      then obtain p s1 a1 where n: "Profiler_new nm now s = Inr (p, s1)" "\<not> stopped p"
        "well_formed s1" "root_node s1 = root_node s" "length (heap s) \<le> length (heap s1)"
        "\<forall>x<length (heap s). parent (heap s1 ! x) = parent (heap s ! x)"
        "current_node s1 = Some a1" "a1 < length (heap s1)" "parent (heap s1 ! a1) = Some a"
        by blast
      have "anc (heap s1) a j c"
        using anc_mono[OF n(5) _ Cons.prems(3)] n(6) by simp
      then have a1: "anc (heap s1) a1 (Suc j) c" using n(8,9) by simp
      have o: "open_after (Suc j) es = Some k" using Cons.prems(4) Begin by simp
      have l: "length (p # stk) = Suc j" using Cons.prems(5) by simp
      have st: "\<forall>q\<in>set (p # stk). \<not> stopped q" using Cons.prems(6) n(2) by simp
      from Cons.IH[OF n(3) n(7) a1 o l st] show ?thesis
        using Begin n(1) n(4) by simp
    qed
  next
    case (End now)
    from Cons.prems(4) End obtain j' where j: "j = Suc j'" "open_after j' es = Some k"
      by (cases j) simp_all
    from Cons.prems(5) j obtain p stk' where stk: "stk = p # stk'" "length stk' = j'"
      by (cases stk) simp_all
    have np: "\<not> stopped p" using Cons.prems(6) stk by simp
    from Cons.prems(3) j obtain pa where pa: "a < length (heap s)"
      "parent (heap s ! a) = Some pa" "anc (heap s) pa j' c"
      by (auto split: option.splits)
    from stop_step[OF Cons.prems(1,2) np, of now]
    show ?thesis
    proof
      assume "stop now p s = Inl Overflow"
      then show ?thesis using End stk np by (simp add: Profiler_destroy_def)
    next
      assume "\<exists>s'. stop now p s = Inr (p, s') \<and> well_formed s' \<and> root_node s' = root_node s \<and>
       length (heap s') = length (heap s) \<and>
       (\<forall>x<length (heap s). parent (heap s' ! x) = parent (heap s ! x)) \<and>
       current_node s' = parent (heap s ! a)"
      then obtain s1 where n: "stop now p s = Inr (p, s1)" "well_formed s1"
        "root_node s1 = root_node s" "length (heap s1) = length (heap s)"
        "\<forall>x<length (heap s). parent (heap s1 ! x) = parent (heap s ! x)"
        "current_node s1 = parent (heap s ! a)"
        by blast
      have c1: "current_node s1 = Some pa" using n(6) pa(2) by simp
      have "anc (heap s1) pa j' c"
        using anc_mono[OF _ _ pa(3), of "heap s1"] n(4,5) by simp
      from Cons.IH[OF n(2) c1 this j(2) stk(2)] Cons.prems(6) stk
      show ?thesis using End n(1) n(3) np by (simp add: Profiler_destroy_def)
    qed
  next
    case (Stop now)
    then show ?thesis using Cons.prems(4) by simp
  qed
qed

lemma find_child_Inl: "find_child h chs nm = Inl e \<Longrightarrow> e = Dangling"
  by (induction chs) (auto simp: deref_def split: if_splits)

lemma get_child_Inl: "get_child this nm h = Inl e \<Longrightarrow> e = Dangling"
  by (auto simp: get_child_def deref_def split: if_splits sum.splits option.splits
      dest: find_child_Inl)

lemma push_samples:
  assumes "push nm s = Inr s'" "x < length (heap s')"
  shows "(x < length (heap s) \<and> num_samples (heap s' ! x) = num_samples (heap s ! x)) \<or>
         num_samples (heap s' ! x) = 1"
proof -
  from push_Inr[OF assms(1)] obtain cur ch h' where
    g: "get_child cur nm (heap s) = Inr (ch, h')" and
    s': "s' = s\<lparr>heap := h', current_node := Some ch, current_depth := current_depth s + 1\<rparr>"
    by blast
  from get_child_found[OF g] have lt: "cur < length (heap s)" and
      dd: "h' = heap s \<or>
      h' = (heap s)[cur := (heap s ! cur)\<lparr>childs := childs (heap s ! cur) @ [length (heap s)]\<rparr>] @ [Node_new nm (Some cur)]"
    by auto
  from dd show ?thesis
  proof
    assume "h' = heap s"
    then show ?thesis using assms(2) by (simp add: s')
  next
    assume h': "h' = (heap s)[cur := (heap s ! cur)\<lparr>childs := childs (heap s ! cur) @ [length (heap s)]\<rparr>] @ [Node_new nm (Some cur)]"
    from assms(2) have "x < length (heap s) \<or> x = length (heap s)" by (auto simp: s' h')
    then show ?thesis
    proof
      assume "x < length (heap s)"
      then show ?thesis using lt by (simp add: s' h' nth_append nth_list_update)
    next
      assume "x = length (heap s)"
      then show ?thesis by (simp add: s' h' nth_append Node_new_def)
    qed
  qed
qed

lemma insert_sample_samples:
  assumes "insert_sample t s = Inr s'" "x < length (heap s')"
  shows "x < length (heap s) \<and> current_depth s' = current_depth s \<and>
         (num_samples (heap s' ! x) = num_samples (heap s ! x) \<or>
          num_samples (heap s' ! x) = num_samples (heap s ! x) + 1)"
proof -
  from insert_sample_Inr[OF assms(1)] obtain cur where
    c: "cur < length (heap s)" and
    s': "s' = s\<lparr>heap := (heap s)[cur := (heap s ! cur)\<lparr>num_samples := num_samples (heap s ! cur) + 1,
                     total_time := total_time (heap s ! cur) + t\<rparr>]\<rparr>"
    by blast
  show ?thesis using assms(2) c by (cases "x = cur") (simp_all add: s')
qed

lemma stop_Inr:
  assumes "stop now p s = Inr (p', s')"
  shows "\<exists>s1. insert_sample (now - start_time p) s = Inr s1 \<and> pop s1 = Inr s'"
  using assms by (auto simp: stop_def assert_info_def Let_def split: if_splits sum.splits)

lemma run_nested_no_overflow:
  assumes "well_formed s" "current_node s = Some a" "anc (heap s) a j c"
    "open_after j es = Some k" "length stk = j" "\<forall>p\<in>set stk. \<not> stopped p"
    "INT_MIN \<le> current_depth s - int j" "current_depth s + int (length es) \<le> INT_MAX"
    "\<forall>x<length (heap s). - INT64_MAX - 1 \<le> num_samples (heap s ! x) \<and>
        num_samples (heap s ! x) + int (length es) \<le> INT64_MAX"
  shows "run es (stk, s) \<noteq> Inl Overflow"
  using assms
proof (induction es arbitrary: s a j stk)
  case Nil
  then show ?case by simp
next
  case (Cons e es)
  have dlow: "INT_MIN \<le> current_depth s" using Cons.prems(7) by simp
  have i64: "1 + int (length es) \<le> INT64_MAX" "- INT64_MAX - 1 \<le> 1"
    using Cons.prems(8) dlow by (simp_all add: INT_MAX_def INT64_MAX_def INT_MIN_def)
  show ?case
  proof (cases e)
    case (Begin nm now)
    have ia: "int_add (current_depth s) 1 = Inr (current_depth s + 1)"
      using Cons.prems(8) dlow by (simp add: int_add_def)
    from push_step[OF Cons.prems(1,2), of nm] ia Cons.prems(2)
    obtain s1 a1 where n: "push nm s = Inr s1"
        "well_formed s1" "root_node s1 = root_node s" "current_depth s1 = current_depth s + 1"
        "length (heap s) \<le> length (heap s1)"
        "\<forall>x<length (heap s). parent (heap s1 ! x) = parent (heap s ! x)"
        "current_node s1 = Some a1" "a1 < length (heap s1)" "parent (heap s1 ! a1) = Some a"
      by (auto simp: push_def split: sum.splits prod.splits dest: get_child_Inl)
    let ?p = "\<lparr>start_time = now, prof_name = nm, stopped = False\<rparr>"
    have pn: "Profiler_new nm now s = Inr (?p, s1)" using n(1) by (simp add: Profiler_new_def)
    have "anc (heap s1) a j c"
      using anc_mono[OF n(5) _ Cons.prems(3)] n(6) by simp
    then have a1: "anc (heap s1) a1 (Suc j) c" using n(8,9) by simp
    have o: "open_after (Suc j) es = Some k" using Cons.prems(4) Begin by simp
    have l: "length (?p # stk) = Suc j" using Cons.prems(5) by simp
    have st: "\<forall>q\<in>set (?p # stk). \<not> stopped q" using Cons.prems(6) by simp
    have d1: "INT_MIN \<le> current_depth s1 - int (Suc j)" using Cons.prems(7) n(4) by simp
    have d2: "current_depth s1 + int (length es) \<le> INT_MAX" using Cons.prems(8) n(4) by simp
    have ns: "\<forall>x<length (heap s1). - INT64_MAX - 1 \<le> num_samples (heap s1 ! x) \<and>
        num_samples (heap s1 ! x) + int (length es) \<le> INT64_MAX"
    proof (intro allI impI)
      fix x assume x: "x < length (heap s1)"
      from push_samples[OF n(1) x] show "- INT64_MAX - 1 \<le> num_samples (heap s1 ! x) \<and>
        num_samples (heap s1 ! x) + int (length es) \<le> INT64_MAX"
      proof
        assume "x < length (heap s) \<and> num_samples (heap s1 ! x) = num_samples (heap s ! x)"
        then show ?thesis using Cons.prems(9) by auto
      next
        assume "num_samples (heap s1 ! x) = 1"
        then show ?thesis using i64 by simp
      qed
    qed
    from Cons.IH[OF n(2) n(7) a1 o l st d1 d2 ns] show ?thesis
      using Begin pn by simp
  next
    case (End now)
    from Cons.prems(4) End obtain j' where j: "j = Suc j'" "open_after j' es = Some k"
      by (cases j) simp_all
    from Cons.prems(5) j obtain p stk' where stk: "stk = p # stk'" "length stk' = j'"
      by (cases stk) simp_all
    have np: "\<not> stopped p" using Cons.prems(6) stk by simp
    from Cons.prems(3) j obtain pa where pa: "a < length (heap s)"
      "parent (heap s ! a) = Some pa" "anc (heap s) pa j' c"
      by (auto split: option.splits)
    let ?t = "now - start_time p"
    have "int64_add (num_samples (heap s ! a)) 1 = Inr (num_samples (heap s ! a) + 1)"
      using Cons.prems(9) pa(1) by (auto simp: int64_add_def)
    then obtain s1 where ins: "insert_sample ?t s = Inr s1"
      using Cons.prems(2) pa(1)
      by (simp add: insert_sample_def deref_def Node_insert_sample_def)
    from insert_sample_step[OF Cons.prems(1,2), of ?t] ins have
      s1: "well_formed s1" "root_node s1 = root_node s" "current_depth s1 = current_depth s"
        "current_node s1 = Some a" "length (heap s1) = length (heap s)"
        "\<forall>x<length (heap s). parent (heap s1 ! x) = parent (heap s ! x)"
      by auto
    have "int_add (current_depth s1) (- 1) = Inr (current_depth s - 1)"
      using Cons.prems(7,8) j s1(3) by (simp add: int_add_def)
    then obtain s2 where ps: "pop s1 = Inr s2"
      using s1(4,5) pa(1) by (simp add: pop_def deref_def)
    from pop_step[OF s1(1,4)] ps have
      s2: "well_formed s2" "root_node s2 = root_node s1" "current_depth s2 = current_depth s1 - 1"
        "current_node s2 = parent (heap s1 ! a)" "heap s2 = heap s1"
      by auto
    have stp: "stop now p s = Inr (p, s2)"
      using np ins ps by (simp add: stop_def assert_info_def)
    have c2: "current_node s2 = Some pa" using s2(4) s1(6) pa(1,2) by simp
    have an: "anc (heap s2) pa j' c"
      using anc_mono[OF _ _ pa(3), of "heap s1"] s1(5,6) s2(5) by simp
    have st: "\<forall>q\<in>set stk'. \<not> stopped q" using Cons.prems(6) stk by simp
    have d1: "INT_MIN \<le> current_depth s2 - int j'" using Cons.prems(7) j s2(3) s1(3) by simp
    have d2: "current_depth s2 + int (length es) \<le> INT_MAX"
      using Cons.prems(8) s2(3) s1(3) by simp
    have ns: "\<forall>x<length (heap s2). - INT64_MAX - 1 \<le> num_samples (heap s2 ! x) \<and>
        num_samples (heap s2 ! x) + int (length es) \<le> INT64_MAX"
    proof (intro allI impI)
      fix x assume "x < length (heap s2)"
      then have x: "x < length (heap s1)" using s2(5) by simp
      from insert_sample_samples[OF ins x] Cons.prems(9)
      show "- INT64_MAX - 1 \<le> num_samples (heap s2 ! x) \<and>
        num_samples (heap s2 ! x) + int (length es) \<le> INT64_MAX"
        unfolding s2(5) by auto
    qed
    from Cons.IH[OF s2(1) c2 an j(2) stk(2) st d1 d2 ns] show ?thesis
      using End stk stp np by (simp add: Profiler_destroy_def)
  next
    case (Stop now)
    then show ?thesis using Cons.prems(4) by simp
  qed
qed

text \<open>
  When every region is terminated once, by leaving its scope and with no explicit
  \<^verbatim>\<open>stop()\<close>, the balance law holds: run from a well-formed state with the cursor at the
  root, such a stream returns unless an integer counter leaves the range of its type,
  which cannot happen while the counters have headroom for the length of the stream,
  and afterwards the cursor is the root exactly when no region is in scope any more.
\<close>

lemma scoped_regions_balance:
  assumes "well_formed s" "current_node s = Some (root_node s)" "open_after 0 es = Some k"
  shows "(run es ([], s) = Inl Overflow \<or>
          (\<exists>stk s'. run es ([], s) = Inr (stk, s') \<and> length stk = k \<and>
             root_node s' = root_node s \<and>
             (current_node s' = Some (root_node s') \<longleftrightarrow> k = 0))) \<and>
         (headroom s (length es) \<longrightarrow> run es ([], s) \<noteq> Inl Overflow)"
proof
  have a: "anc (heap s) (root_node s) 0 (root_node s)" by simp
  have "run es ([], s) = Inl Overflow \<or>
    (\<exists>stk' s'. run es ([], s) = Inr (stk', s') \<and> well_formed s' \<and>
       root_node s' = root_node s \<and> length stk' = k \<and>
       (\<exists>a'. current_node s' = Some a' \<and> anc (heap s') a' k (root_node s)))"
    using run_nested[OF assms(1,2) a assms(3), of "[]"] by simp
  then show "run es ([], s) = Inl Overflow \<or>
          (\<exists>stk s'. run es ([], s) = Inr (stk, s') \<and> length stk = k \<and>
             root_node s' = root_node s \<and>
             (current_node s' = Some (root_node s') \<longleftrightarrow> k = 0))"
  proof
    assume "run es ([], s) = Inl Overflow"
    then show ?thesis by simp
  next
    assume "\<exists>stk' s'. run es ([], s) = Inr (stk', s') \<and> well_formed s' \<and>
       root_node s' = root_node s \<and> length stk' = k \<and>
       (\<exists>a'. current_node s' = Some a' \<and> anc (heap s') a' k (root_node s))"
    then obtain stk' s' a' where r: "run es ([], s) = Inr (stk', s')" "well_formed s'"
      "root_node s' = root_node s" "length stk' = k" "current_node s' = Some a'"
      "anc (heap s') a' k (root_node s)" by blast
    from anc_root[OF r(2)] r(6) r(3) have "a' = root_node s' \<longleftrightarrow> k = 0" by simp
    then show ?thesis using r by simp
  qed
  show "headroom s (length es) \<longrightarrow> run es ([], s) \<noteq> Inl Overflow"
  proof
    assume h: "headroom s (length es)"
    have d: "INT_MIN \<le> current_depth s - int 0" "current_depth s + int (length es) \<le> INT_MAX"
      using h by (simp_all add: headroom_def)
    have ns: "\<forall>x<length (heap s). - INT64_MAX - 1 \<le> num_samples (heap s ! x) \<and>
        num_samples (heap s ! x) + int (length es) \<le> INT64_MAX"
      using h by (simp add: headroom_def)
    from run_nested_no_overflow[OF assms(1,2) a assms(3) _ _ d ns, of "[]"]
    show "run es ([], s) \<noteq> Inl Overflow" by simp
  qed
qed

text \<open>
  Claim C3 asks that for properly nested begin and stop calls the cursor is the root
  exactly when the outermost region stops and at no earlier point while a region is open.
  With explicit stops on scope-bound regions this fails, by the slip of claims C1 and
  C2: \<^verbatim>\<open>stop()\<close> never sets \<^verbatim>\<open>stopped\<close>, so the destructor stops the region again. In
  \<^verbatim>\<open>{ Profiler a("A"); { Profiler b("B"); b.stop(); } a.stop(); }\<close> on a fresh profiler,
  with the clock reading 0 to 5, the cursor is already the root when B has left its
  scope, while A is still open; when the outermost region A stops the cursor becomes
  null, and the destructor of A then dereferences the null cursor.
\<close>

theorem explicit_stop_breaks_balance:
  "run [Begin ''A'' 0, Begin ''B'' 1, Stop 2, End 3] ([], ProfilerRecords_new) =
     Inr ([\<lparr>start_time = 0, prof_name = ''A'', stopped = False\<rparr>],
          \<lparr>heap = [\<lparr>childs = [1], parent = None, name = ''[Taichi Profiler]'',
                     total_time = 0, num_samples = 1\<rparr>,
                   \<lparr>childs = [2], parent = Some 0, name = ''A'', total_time = 2,
                     num_samples = 2\<rparr>,
                   \<lparr>childs = [], parent = Some 1, name = ''B'', total_time = 1,
                     num_samples = 2\<rparr>],
            root_node = 0, current_node = Some 0, current_depth = 0\<rparr>) \<and>
   run [Begin ''A'' 0, Begin ''B'' 1, Stop 2, End 3, Stop 4] ([], ProfilerRecords_new) =
     Inr ([\<lparr>start_time = 0, prof_name = ''A'', stopped = False\<rparr>],
          \<lparr>heap = [\<lparr>childs = [1], parent = None, name = ''[Taichi Profiler]'',
                     total_time = 4, num_samples = 2\<rparr>,
                   \<lparr>childs = [2], parent = Some 0, name = ''A'', total_time = 2,
                     num_samples = 2\<rparr>,
                   \<lparr>childs = [], parent = Some 1, name = ''B'', total_time = 1,
                     num_samples = 2\<rparr>],
            root_node = 0, current_node = None, current_depth = - 1\<rparr>) \<and>
   run [Begin ''A'' 0, Begin ''B'' 1, Stop 2, End 3, Stop 4, End 5] ([], ProfilerRecords_new) =
     Inl NullDeref"
  by (simp add: Profiler_new_def push_def get_child_def deref_def ProfilerRecords_new_def
      Node_new_def stop_def assert_info_def insert_sample_def Node_insert_sample_def pop_def
      int_add_def int64_add_def INT64_MAX_def INT_MAX_def INT_MIN_def Profiler_destroy_def)

section \<open>Invariants of the reachable states\<close>




lemma reachable_depth:
  "reachable s \<Longrightarrow>
     current_depth s \<le> INT_MAX \<and>
     (case current_node s of
        None \<Rightarrow> current_depth s = - 1
      | Some a \<Rightarrow> 0 \<le> current_depth s \<and>
                  anc (heap s) a (nat (current_depth s)) (root_node s))"
proof (induction rule: reachable.induct)
  case reachable_new
  then show ?case by (simp add: ProfilerRecords_new_def INT_MAX_def)
next
  case (reachable_push s nm s')
  have w: "well_formed s" using reachable_push.hyps(1) by (rule reachable_well_formed)
  from push_Inr[OF reachable_push.hyps(2)] obtain cur where
    cur: "current_node s = Some cur" and b: "current_depth s + 1 \<le> INT_MAX" by blast
  from push_step[OF w cur, of nm] reachable_push.hyps(2) obtain a' where
    p: "current_depth s' = current_depth s + 1" "root_node s' = root_node s"
      "length (heap s) \<le> length (heap s')"
      "\<forall>x<length (heap s). parent (heap s' ! x) = parent (heap s ! x)"
      "current_node s' = Some a'" "a' < length (heap s')" "parent (heap s' ! a') = Some cur"
    by auto
  from reachable_push.IH cur have ih: "0 \<le> current_depth s"
    "anc (heap s) cur (nat (current_depth s)) (root_node s)" by simp_all
  have "anc (heap s') cur (nat (current_depth s)) (root_node s)"
    using anc_mono[OF p(3) _ ih(2)] p(4) by simp
  then have "anc (heap s') a' (Suc (nat (current_depth s))) (root_node s)"
    using p(6,7) by simp
  moreover have "nat (current_depth s + 1) = Suc (nat (current_depth s))" using ih(1) by simp
  ultimately show ?case using p(1,2,5) b ih(1) by simp
next
  case (reachable_pop s s')
  have w: "well_formed s" using reachable_pop.hyps(1) by (rule reachable_well_formed)
  from pop_Inr[OF reachable_pop.hyps(2)] obtain cur where
    cur: "current_node s = Some cur" and cl: "cur < length (heap s)" and
    s': "s' = s\<lparr>current_node := parent (heap s ! cur), current_depth := current_depth s - 1\<rparr>"
    by blast
  from reachable_pop.IH cur have ih: "0 \<le> current_depth s" "current_depth s \<le> INT_MAX"
    "anc (heap s) cur (nat (current_depth s)) (root_node s)" by simp_all
  show ?case
  proof (cases "nat (current_depth s)")
    case 0
    then have "cur = root_node s" "current_depth s = 0" using ih by simp_all
    then have "parent (heap s ! cur) = None" using well_formedD(2)[OF w] by simp
    then show ?thesis using \<open>current_depth s = 0\<close> by (simp add: s' INT_MAX_def)
  next
    case (Suc k)
    then obtain p where p: "parent (heap s ! cur) = Some p" "anc (heap s) p k (root_node s)"
      using ih(3) by (auto split: option.splits)
    have "nat (current_depth s - 1) = k" "0 \<le> current_depth s - 1" using Suc by simp_all
    then show ?thesis using p ih(2) by (simp add: s')
  qed
next
  case (reachable_insert_sample s time s')
  have w: "well_formed s" using reachable_insert_sample.hyps(1) by (rule reachable_well_formed)
  from insert_sample_Inr[OF reachable_insert_sample.hyps(2)] obtain cur where
    cur: "current_node s = Some cur" by blast
  from insert_sample_step[OF w cur, of time] reachable_insert_sample.hyps(2) have
    p: "current_depth s' = current_depth s" "root_node s' = root_node s"
      "length (heap s') = length (heap s)"
      "\<forall>x<length (heap s). parent (heap s' ! x) = parent (heap s ! x)"
      "current_node s' = Some cur"
    by auto
  from reachable_insert_sample.IH cur have ih: "0 \<le> current_depth s" "current_depth s \<le> INT_MAX"
    "anc (heap s) cur (nat (current_depth s)) (root_node s)" by simp_all
  have "anc (heap s') cur (nat (current_depth s)) (root_node s)"
    using anc_mono[OF _ _ ih(3), of "heap s'"] p(3,4) by simp
  then show ?case using p ih by simp
qed

text \<open>
  Claim C10. \<^verbatim>\<open>pop\<close> does not check that the cursor is below the root: in a reachable
  state with the cursor at the root it returns normally, the cursor becomes the null
  parent of the root and the depth becomes \<open>-1\<close>. Any \<^verbatim>\<open>push\<close> or \<^verbatim>\<open>insert_sample\<close>
  after that dereferences the null cursor.
\<close>

theorem pop_at_root_unchecked:
  assumes "reachable s" "current_node s = Some (root_node s)"
  shows "pop s = Inr (s\<lparr>current_node := None, current_depth := - 1\<rparr>) \<and>
         push nm (s\<lparr>current_node := None, current_depth := - 1\<rparr>) = Inl NullDeref \<and>
         insert_sample time (s\<lparr>current_node := None, current_depth := - 1\<rparr>) = Inl NullDeref"
proof -
  have w: "well_formed s" using assms(1) by (rule reachable_well_formed)
  from reachable_depth[OF assms(1)] assms(2) have
    d: "0 \<le> current_depth s" "anc (heap s) (root_node s) (nat (current_depth s)) (root_node s)"
    by simp_all
  from anc_root[OF w d(2)] d(1) have d0: "current_depth s = 0" by simp
  have "pop s = Inr (s\<lparr>current_node := None, current_depth := - 1\<rparr>)"
    using well_formedD(1,2)[OF w] assms(2) d0
    by (simp add: pop_def deref_def int_add_def INT_MIN_def INT_MAX_def)
  then show ?thesis by (simp add: push_def insert_sample_def)
qed

theorem pop_at_root_unchecked_witness:
  "reachable ProfilerRecords_new \<and>
   current_node ProfilerRecords_new = Some (root_node ProfilerRecords_new) \<and>
   pop ProfilerRecords_new =
     Inr \<lparr>heap = [Node_new ''[Taichi Profiler]'' None], root_node = 0,
          current_node = None, current_depth = - 1\<rparr> \<and>
   push ''A'' \<lparr>heap = [Node_new ''[Taichi Profiler]'' None], root_node = 0,
          current_node = None, current_depth = - 1\<rparr> = Inl NullDeref \<and>
   insert_sample 1 \<lparr>heap = [Node_new ''[Taichi Profiler]'' None], root_node = 0,
          current_node = None, current_depth = - 1\<rparr> = Inl NullDeref"
proof -
  have c: "current_node ProfilerRecords_new = Some (root_node ProfilerRecords_new)"
    by (simp add: ProfilerRecords_new_def)
  from pop_at_root_unchecked[OF reachable_new c, of "''A''" 1]
  show ?thesis using reachable_new c by (simp add: ProfilerRecords_new_def)
qed

text \<open>
  Claim C4. A region whose construction creates its node (the cursor has no child of
  that name yet), with no nested region and a single \<^verbatim>\<open>stop\<close>, leaves that node with two
  samples (the initial one and the real one) and with a total time equal to the clock
  reading at the stop minus the reading taken at construction. \<open>t0\<close> and \<open>t1\<close> are the
  two readings of the clock.
\<close>

theorem fresh_region_single_stop:
  assumes "reachable s" "current_node s = Some cur"
    "find_child (heap s) (childs (heap s ! cur)) nm = Inr None" "current_depth s < INT_MAX"
  shows "\<exists>p s1 s2. Profiler_new nm t0 s = Inr (p, s1) \<and>
           current_node s1 = Some (length (heap s)) \<and>
           deref (heap s1) (length (heap s)) = Inr (Node_new nm (Some cur)) \<and>
           stop t1 p s1 = Inr (p, s2) \<and>
           deref (heap s2) (length (heap s)) =
             Inr \<lparr>childs = [], parent = Some cur, name = nm, total_time = t1 - t0,
                  num_samples = 2\<rparr> \<and>
           current_node s2 = Some cur"
proof -
  have w: "well_formed s" using assms(1) by (rule reachable_well_formed)
  have cl: "cur < length (heap s)" using well_formedD(3)[OF w assms(2)] .
  from reachable_depth[OF assms(1)] assms(2) have d: "0 \<le> current_depth s" by simp
  let ?h1 = "(heap s)[cur := (heap s ! cur)\<lparr>childs := childs (heap s ! cur) @ [length (heap s)]\<rparr>] @
      [Node_new nm (Some cur)]"
  let ?s1 = "s\<lparr>heap := ?h1, current_node := Some (length (heap s)),
      current_depth := current_depth s + 1\<rparr>"
  let ?p = "\<lparr>start_time = t0, prof_name = nm, stopped = False\<rparr>"
  have n: "Profiler_new nm t0 s = Inr (?p, ?s1)"
    using assms(2,3,4) cl d
    by (simp add: Profiler_new_def push_def get_child_def deref_def int_add_def INT_MIN_def)
  let ?h2 = "?h1[length (heap s) := \<lparr>childs = [], parent = Some cur, name = nm,
      total_time = t1 - t0, num_samples = 2\<rparr>]"
  let ?s2 = "s\<lparr>heap := ?h2, current_node := Some cur, current_depth := current_depth s\<rparr>"
  have st: "stop t1 ?p ?s1 = Inr (?p, ?s2)"
    using assms(4) d
    by (simp add: stop_def assert_info_def insert_sample_def deref_def Node_insert_sample_def
        int64_add_def INT64_MAX_def pop_def int_add_def INT_MIN_def nth_append Node_new_def)
  show ?thesis
    using n st by (simp add: deref_def nth_append)
qed

theorem fresh_region_single_stop_witness:
  "reachable ProfilerRecords_new \<and> current_node ProfilerRecords_new = Some 0 \<and>
   find_child (heap ProfilerRecords_new) (childs (heap ProfilerRecords_new ! 0)) ''A'' = Inr None \<and>
   current_depth ProfilerRecords_new < INT_MAX \<and>
   (\<exists>p s1 s2. Profiler_new ''A'' (1 / 2) ProfilerRecords_new = Inr (p, s1) \<and>
      current_node s1 = Some 1 \<and>
      stop (7 / 10) p s1 = Inr (p, s2) \<and>
      deref (heap s2) 1 =
        Inr \<lparr>childs = [], parent = Some 0, name = ''A'', total_time = 1 / 5, num_samples = 2\<rparr>)"
proof -
  have h: "current_node ProfilerRecords_new = Some 0"
    "find_child (heap ProfilerRecords_new) (childs (heap ProfilerRecords_new ! 0)) ''A'' = Inr None"
    "current_depth ProfilerRecords_new < INT_MAX"
    by (simp_all add: ProfilerRecords_new_def Node_new_def INT_MAX_def)
  have l: "length (heap ProfilerRecords_new) = 1" by (simp add: ProfilerRecords_new_def)
  from fresh_region_single_stop[OF reachable_new h, of "1 / 2" "7 / 10"]
  show ?thesis using reachable_new h unfolding l by auto
qed

section \<open>What the renderer prints\<close>

lemma only_appendsD:
  assumes "only_appends rec" "rec ch d (s, out) = Some (Inr (s', out'))"
  shows "s' = s" "out' = out @ printed rec ch d s"
    "\<And>out2. rec ch d (s, out2) = Some (Inr (s, out2 @ printed rec ch d s))"
proof -
  from assms have a: "s' = s \<and> (\<forall>out2. rec ch d (s, out2) = Some (Inr (s, out2 @ printed rec ch d s)))"
    unfolding only_appends_def by blast
  then show "s' = s" by simp
  from a show "\<And>out2. rec ch d (s, out2) = Some (Inr (s, out2 @ printed rec ch d s))" by simp
  from a have "rec ch d (s, out) = Some (Inr (s, out @ printed rec ch d s))" by simp
  then have "Some (Inr (s', out')) = Some (Inr (s, out @ printed rec ch d s))"
    using assms(2) by simp
  then show "out' = out @ printed rec ch d s" by simp
qed

lemma make_indent_Inr:
  assumes "make_indent depth k out = Inr out1"
  shows "INT_MIN \<le> depth + k" "depth + k \<le> INT_MAX"
    "out1 = out @ replicate (nat (depth + k)) Indent"
    "\<And>out2. make_indent depth k out2 = Inr (out2 @ replicate (nat (depth + k)) Indent)"
  using assms by (auto simp: make_indent_def int_add_def split: if_splits)

lemma make_indent_Inl:
  assumes "make_indent depth k out = Inl e"
  shows "e = Overflow" "\<not> (INT_MIN \<le> depth + k \<and> depth + k \<le> INT_MAX)"
  using assms by (auto simp: make_indent_def int_add_def split: if_splits)

lemma deref_Inr: "deref h a = Inr n \<Longrightarrow> a < length h \<and> n = h ! a"
  by (auto simp: deref_def split: if_splits)

lemma print_childs_plain_Cons:
  assumes "print_childs_plain rec (ch # chs) depth (s, out) = Some (Inr st)"
  shows "\<exists>out1 c st1. make_indent depth 1 out = Inr out1 \<and> deref (heap s) ch = Inr c \<and>
           rec ch (depth + 1) (s, out1 @ [Plain (get_averaged_float64 c) (name c)]) = Some (Inr st1) \<and>
           print_childs_plain rec chs depth st1 = Some (Inr st)"
  using assms by (auto simp: Let_def split: sum.splits option.splits)

lemma print_childs_plain_appends:
  assumes "only_appends rec" "print_childs_plain rec chs depth (s, out) = Some (Inr (s', out'))"
  shows "s' = s \<and>
    (\<forall>out2. print_childs_plain rec chs depth (s, out2) =
             Some (Inr (s, out2 @ spec_plain_lines rec depth s chs)))"
  using assms(2)
proof (induction chs arbitrary: out)
  case Nil
  then show ?case by (simp add: spec_plain_lines_def)
next
  case (Cons ch chs)
  from print_childs_plain_Cons[OF Cons.prems] obtain out1 c st1 where
    m: "make_indent depth 1 out = Inr out1" and d: "deref (heap s) ch = Inr c" and
    r: "rec ch (depth + 1) (s, out1 @ [Plain (get_averaged_float64 c) (name c)]) = Some (Inr st1)" and
    l: "print_childs_plain rec chs depth st1 = Some (Inr (s', out'))"
    by blast
  obtain s1 o1 where st1: "st1 = (s1, o1)" by (cases st1)
  note ra = only_appendsD[OF assms(1) r[unfolded st1]]
  from l have l': "print_childs_plain rec chs depth (s, o1) = Some (Inr (s', out'))"
    using st1 ra(1) by simp
  from Cons.IH[OF l'] have ih: "s' = s"
    "\<And>out2. print_childs_plain rec chs depth (s, out2) =
             Some (Inr (s, out2 @ spec_plain_lines rec depth s chs))" by simp_all
  have c: "c = heap s ! ch" using deref_Inr[OF d] by simp
  have "print_childs_plain rec (ch # chs) depth (s, out2) =
             Some (Inr (s, out2 @ spec_plain_lines rec depth s (ch # chs)))" for out2
    using make_indent_Inr(4)[OF m, of out2] d ra(3) ih(2)
    by (simp add: spec_plain_lines_def c)
  then show ?case using ih(1) by simp
qed

lemma print_childs_pct_Cons:
  assumes "print_childs_pct rec (ch # chs) depth T unit scale u (s, out) = Some (Inr res)"
  shows "\<exists>out1 c st1. make_indent depth 1 out = Inr out1 \<and> deref (heap s) ch = Inr c \<and>
           rec ch (depth + 1)
             (s, out1 @ [Pct (float64_mul (get_averaged_float64 c) scale) unit
                           (float64_div (float64_mul (get_averaged_float64 c) 100) T) (name c)]) =
             Some (Inr st1) \<and>
           print_childs_pct rec chs depth T unit scale (float64_sub u (get_averaged_float64 c)) st1 =
             Some (Inr res)"
  using assms by (auto simp: Let_def split: sum.splits option.splits)

lemma print_childs_pct_appends:
  assumes "only_appends rec"
    "print_childs_pct rec chs depth T unit scale u (s, out) = Some (Inr (u', (s', out')))"
  shows "s' = s \<and>
    (\<forall>out2 u2. print_childs_pct rec chs depth T unit scale u2 (s, out2) =
       Some (Inr (running_remainder s u2 chs,
                  (s, out2 @ spec_pct_lines rec depth T unit scale s chs))))"
  using assms(2)
proof (induction chs arbitrary: out u)
  case Nil
  then show ?case by (simp add: spec_pct_lines_def running_remainder_def)
next
  case (Cons ch chs)
  from print_childs_pct_Cons[OF Cons.prems] obtain out1 c st1 where
    m: "make_indent depth 1 out = Inr out1" and d: "deref (heap s) ch = Inr c" and
    r: "rec ch (depth + 1)
             (s, out1 @ [Pct (float64_mul (get_averaged_float64 c) scale) unit
                           (float64_div (float64_mul (get_averaged_float64 c) 100) T) (name c)]) =
             Some (Inr st1)" and
    l: "print_childs_pct rec chs depth T unit scale (float64_sub u (get_averaged_float64 c)) st1 =
          Some (Inr (u', (s', out')))"
    by blast
  obtain s1 o1 where st1: "st1 = (s1, o1)" by (cases st1)
  note ra = only_appendsD[OF assms(1) r[unfolded st1]]
  from l have l': "print_childs_pct rec chs depth T unit scale (float64_sub u (get_averaged_float64 c))
          (s, o1) =
          Some (Inr (u', (s', out')))"
    using st1 ra(1) by simp
  from Cons.IH[OF l'] have ih: "s' = s"
    "\<And>out2 u2. print_childs_pct rec chs depth T unit scale u2 (s, out2) =
       Some (Inr (running_remainder s u2 chs,
                  (s, out2 @ spec_pct_lines rec depth T unit scale s chs)))" by simp_all
  have c: "c = heap s ! ch" using deref_Inr[OF d] by simp
  have "print_childs_pct rec (ch # chs) depth T unit scale u2 (s, out2) =
       Some (Inr (running_remainder s u2 (ch # chs),
                  (s, out2 @ spec_pct_lines rec depth T unit scale s (ch # chs))))" for out2 u2
  proof -
    let ?ind = "replicate (nat (depth + 1)) Indent"
    let ?line = "Pct (float64_mul (get_averaged_float64 c) scale) unit
        (float64_div (float64_mul (get_averaged_float64 c) 100) T) (name c)"
    let ?o = "(out2 @ ?ind) @ [?line]"
    have "print_childs_pct rec (ch # chs) depth T unit scale u2 (s, out2) =
        print_childs_pct rec chs depth T unit scale (float64_sub u2 (get_averaged_float64 c))
          (s, ?o @ printed rec ch (depth + 1) s)"
      using make_indent_Inr(4)[OF m, of out2] d ra(3)[of ?o] by (simp add: Let_def)
    also have "\<dots> = Some (Inr (running_remainder s (float64_sub u2 (get_averaged_float64 c)) chs,
        (s, (?o @ printed rec ch (depth + 1) s) @ spec_pct_lines rec depth T unit scale s chs)))"
      by (rule ih(2))
    also have "running_remainder s (float64_sub u2 (get_averaged_float64 c)) chs =
        running_remainder s u2 (ch # chs)"
      by (simp add: running_remainder_def c)
    also have "(?o @ printed rec ch (depth + 1) s) @ spec_pct_lines rec depth T unit scale s chs =
        out2 @ spec_pct_lines rec depth T unit scale s (ch # chs)"
      by (simp add: spec_pct_lines_def c)
    finally show ?thesis .
  qed
  then show ?case using ih(1) by simp
qed


lemma print_title:
  "(if depth = 0
    then (case make_indent depth 0 out of
            Inl e \<Rightarrow> Inl e
          | Inr out0 \<Rightarrow> Inr (out0 @ [Title nm]))
    else Inr out) = Inr (out @ (if depth = 0 then [Title nm] else []))"
  by (simp add: make_indent_def int_add_def INT_MIN_def INT_MAX_def)

lemma print_body_unfold:
  assumes "deref (heap s) node = Inr n"
  shows "print_body rec node depth (s, out) =
    (let total = get_averaged_float64 n; out1 = out @ (if depth = 0 then [Title (name n)] else [])
     in if total < threshold_1us
        then print_childs_plain rec (childs n) depth (s, out1)
        else
          (let unit = (if total < literal_0_1 then ''ms'' else ''s'');
               scale = (if total < literal_0_1 then 1000 else 1)
           in case print_childs_pct rec (childs n) depth total unit scale total (s, out1) of
                None \<Rightarrow> None
              | Some (Inl e) \<Rightarrow> Some (Inl e)
              | Some (Inr (unaccounted, (s2, out2))) \<Rightarrow>
                  if childs n \<noteq> [] \<and> unaccounted > float64_mul total literal_0_05
                  then (case make_indent depth 1 out2 of
                          Inl e \<Rightarrow> Some (Inl e)
                        | Inr out3 \<Rightarrow>
                            Some (Inr (s2, out3 @
                              [Pct (float64_mul unaccounted scale) unit
                                 (float64_div (float64_mul unaccounted 100) total)
                                 ''[unaccounted]''])))
                  else Some (Inr (s2, out2))))"
  unfolding print_body_def using assms by (simp add: print_title Let_def)

lemma print_body_deref:
  assumes "print_body rec node depth (s, out) = Some (Inr st)"
  shows "\<exists>n. deref (heap s) node = Inr n"
  using assms unfolding print_body_def by (cases "deref (heap s) node") simp_all

lemma spec_node_lines_unfold:
  assumes "n = heap s ! node"
  shows "spec_node_lines rec node depth s =
      (if depth = 0 then [Title (name n)] else []) @
         (if get_averaged_float64 n < threshold_1us then spec_plain_lines rec depth s (childs n)
          else spec_pct_lines rec depth (get_averaged_float64 n)
                 (if get_averaged_float64 n < literal_0_1 then ''ms'' else ''s'')
                 (if get_averaged_float64 n < literal_0_1 then 1000 else 1) s (childs n) @
               (if childs n \<noteq> [] \<and>
                   running_remainder s (get_averaged_float64 n) (childs n) >
                     float64_mul (get_averaged_float64 n) literal_0_05
                then replicate (nat (depth + 1)) Indent @
                     [Pct (float64_mul (running_remainder s (get_averaged_float64 n) (childs n))
                             (if get_averaged_float64 n < literal_0_1 then 1000 else 1))
                        (if get_averaged_float64 n < literal_0_1 then ''ms'' else ''s'')
                        (float64_div
                           (float64_mul (running_remainder s (get_averaged_float64 n) (childs n)) 100)
                           (get_averaged_float64 n))
                        ''[unaccounted]'']
                else []))"
  unfolding spec_node_lines_def Let_def assms ..

lemma print_body_appends:
  assumes "only_appends rec" "print_body rec node depth (s, out) = Some (Inr (s', out'))"
  shows "s' = s \<and>
    (\<forall>out2. print_body rec node depth (s, out2) =
             Some (Inr (s, out2 @ spec_node_lines rec node depth s)))"
proof -
  from print_body_deref[OF assms(2)] obtain n where d: "deref (heap s) node = Inr n" by blast
  have n: "n = heap s ! node" using deref_Inr[OF d] by simp
  let ?T = "get_averaged_float64 n"
  let ?title = "if depth = 0 then [Title (name n)] else []"
  note ub = print_body_unfold[OF d, of rec depth, unfolded Let_def]
  note sn = spec_node_lines_unfold[OF n, of rec depth]
  show ?thesis
  proof (cases "?T < threshold_1us")
    case True
    have ub1: "print_body rec node depth (s, q) =
        print_childs_plain rec (childs n) depth (s, q @ ?title)" for q
      unfolding ub by (simp only: True if_True)
    have sn1: "spec_node_lines rec node depth s = ?title @ spec_plain_lines rec depth s (childs n)"
      unfolding sn by (simp only: True if_True)
    from assms(2) have "print_childs_plain rec (childs n) depth (s, out @ ?title) =
        Some (Inr (s', out'))"
      unfolding ub1 .
    from print_childs_plain_appends[OF assms(1) this] have r: "s' = s"
      "\<And>out2. print_childs_plain rec (childs n) depth (s, out2) =
             Some (Inr (s, out2 @ spec_plain_lines rec depth s (childs n)))" by simp_all
    have "print_body rec node depth (s, out2) =
             Some (Inr (s, out2 @ spec_node_lines rec node depth s))" for out2
      unfolding ub1 sn1 r(2) by simp
    then show ?thesis using r(1) by simp
  next
    case False
    let ?unit = "if ?T < literal_0_1 then ''ms'' else ''s''"
    let ?scale = "if ?T < literal_0_1 then 1000 else 1 :: real"
    let ?rest = "running_remainder s ?T (childs n)"
    let ?pl = "spec_pct_lines rec depth ?T ?unit ?scale s (childs n)"
    let ?ul = "Pct (float64_mul ?rest ?scale) ?unit (float64_div (float64_mul ?rest 100) ?T)
        ''[unaccounted]''"
    let ?C = "childs n \<noteq> [] \<and> ?rest > float64_mul ?T literal_0_05"
    have ub2: "print_body rec node depth (s, q) =
        (case print_childs_pct rec (childs n) depth ?T ?unit ?scale ?T (s, q @ ?title) of
                None \<Rightarrow> None
              | Some (Inl e) \<Rightarrow> Some (Inl e)
              | Some (Inr (unaccounted, (s2, out2))) \<Rightarrow>
                  if childs n \<noteq> [] \<and> unaccounted > float64_mul ?T literal_0_05
                  then (case make_indent depth 1 out2 of
                          Inl e \<Rightarrow> Some (Inl e)
                        | Inr out3 \<Rightarrow>
                            Some (Inr (s2, out3 @
                              [Pct (float64_mul unaccounted ?scale) ?unit
                                 (float64_div (float64_mul unaccounted 100) ?T)
                                 ''[unaccounted]''])))
                  else Some (Inr (s2, out2)))" for q
      unfolding ub by (simp only: False if_False)
    have sn2: "spec_node_lines rec node depth s =
        ?title @ ?pl @ (if ?C then replicate (nat (depth + 1)) Indent @ [?ul] else [])"
      unfolding sn by (simp only: False if_False)
    from assms(2)[unfolded ub2] obtain u s2 o2 where
      l: "print_childs_pct rec (childs n) depth ?T ?unit ?scale ?T (s, out @ ?title) =
            Some (Inr (u, (s2, o2)))"
      by (auto split: option.splits sum.splits)
    from print_childs_pct_appends[OF assms(1) l] have r: "s2 = s"
      "\<And>out2 u2. print_childs_pct rec (childs n) depth ?T ?unit ?scale u2 (s, out2) =
        Some (Inr (running_remainder s u2 (childs n), (s, out2 @ ?pl)))"
      by simp_all
    have ub3: "print_body rec node depth (s, q) =
        (if ?C
         then (case make_indent depth 1 ((q @ ?title) @ ?pl) of
                 Inl e \<Rightarrow> Some (Inl e)
               | Inr out3 \<Rightarrow> Some (Inr (s, out3 @ [?ul])))
         else Some (Inr (s, (q @ ?title) @ ?pl)))" for q
      unfolding ub2 r(2) by (simp only: option.case sum.case prod.case)
    show ?thesis
    proof (cases ?C)
      case True
      from assms(2)[unfolded ub3] obtain out3 where
        m: "make_indent depth 1 ((out @ ?title) @ ?pl) = Inr out3" and "s' = s"
        by (simp only: if_P[OF True] split: sum.splits) auto
      have "print_body rec node depth (s, out2) =
             Some (Inr (s, out2 @ spec_node_lines rec node depth s))" for out2
        unfolding ub3 sn2 make_indent_Inr(4)[OF m]
        by (simp only: if_P[OF True] sum.case append_assoc)
      then show ?thesis using \<open>s' = s\<close> by simp
    next
      case F2: False
      from assms(2)[unfolded ub3] have "s' = s"
        by (simp only: if_not_P[OF F2]) simp
      have "print_body rec node depth (s, out2) =
             Some (Inr (s, out2 @ spec_node_lines rec node depth s))" for out2
        unfolding ub3 sn2
        by (simp only: if_not_P[OF F2] append_assoc append_Nil2)
      then show ?thesis using \<open>s' = s\<close> by simp
    qed
  qed
qed

lemma print_node_only_appends: "only_appends (print_node fuel)"
proof (induction fuel)
  case 0
  show ?case by (simp add: only_appends_def)
next
  case (Suc k)
  show ?case
    unfolding only_appends_def
  proof (intro allI impI)
    fix ch d s out s' out'
    assume a: "print_node (Suc k) ch d (s, out) = Some (Inr (s', out'))"
    then have "print_body (print_node k) ch d (s, out) = Some (Inr (s', out'))" by simp
    from print_body_appends[OF Suc this] have r: "s' = s"
      "\<And>out2. print_body (print_node k) ch d (s, out2) =
             Some (Inr (s, out2 @ spec_node_lines (print_node k) ch d s))" by simp_all
    have "printed (print_node (Suc k)) ch d s = spec_node_lines (print_node k) ch d s"
      using r(2)[of "[]"] by (simp add: printed_def)
    then show "s' = s \<and> (\<forall>out2. print_node (Suc k) ch d (s, out2) =
        Some (Inr (s, out2 @ printed (print_node (Suc k)) ch d s)))"
      using r by simp
  qed
qed

lemma print_node_Suc_lines:
  assumes "print_node (Suc fuel) node depth (s, out) = Some (Inr (s', out'))"
  shows "s' = s \<and> out' = out @ spec_node_lines (print_node fuel) node depth s"
proof -
  from assms have a: "print_body (print_node fuel) node depth (s, out) = Some (Inr (s', out'))"
    by simp
  from print_body_appends[OF print_node_only_appends a] have r: "s' = s"
      "\<And>out2. print_body (print_node fuel) node depth (s, out2) =
             Some (Inr (s, out2 @ spec_node_lines (print_node fuel) node depth s))" by simp_all
  from a r(2)[of out] r(1) show ?thesis by simp
qed

section \<open>The renderer returns and changes nothing\<close>

lemma print_childs_plain_returns:
  assumes "only_appends rec"
    and "\<forall>ch\<in>set chs. ch < length (heap s) \<and>
          (\<forall>out. \<exists>r. rec ch (depth + 1) (s, out) = Some r \<and>
             (\<forall>e. r = Inl e \<longrightarrow> e = Overflow) \<and> (B \<longrightarrow> (\<exists>st. r = Inr st)))"
    and "B \<longrightarrow> chs = [] \<or> (INT_MIN \<le> depth + 1 \<and> depth + 1 \<le> INT_MAX)"
  shows "\<exists>r. print_childs_plain rec chs depth (s, out) = Some r \<and>
           (\<forall>e. r = Inl e \<longrightarrow> e = Overflow) \<and> (B \<longrightarrow> (\<exists>st. r = Inr st))"
  using assms(2,3)
proof (induction chs arbitrary: out)
  case Nil
  then show ?case by simp
next
  case (Cons ch chs)
  have chl: "ch < length (heap s)" using Cons.prems(1) by simp
  then have d: "deref (heap s) ch = Inr (heap s ! ch)" by (simp add: deref_def)
  let ?c = "heap s ! ch"
  show ?case
  proof (cases "make_indent depth 1 out")
    case (Inl e)
    from make_indent_Inl[OF Inl] Cons.prems(2) have "e = Overflow" "\<not> B" by auto
    then show ?thesis using Inl by simp
  next
    case (Inr out1)
    have rng: "INT_MIN \<le> depth + 1 \<and> depth + 1 \<le> INT_MAX"
      using make_indent_Inr(1,2)[OF Inr] by simp
    let ?o = "out1 @ [Plain (get_averaged_float64 ?c) (name ?c)]"
    from Cons.prems(1) obtain r1 where r1: "rec ch (depth + 1) (s, ?o) = Some r1"
      "\<forall>e. r1 = Inl e \<longrightarrow> e = Overflow" "B \<longrightarrow> (\<exists>st. r1 = Inr st)"
      by fastforce
    show ?thesis
    proof (cases r1)
      case (Inl e)
      then have "e = Overflow" "\<not> B" using r1(2,3) by auto
      then show ?thesis using Inr d r1(1) Inl by simp
    next
      case (Inr st1)
      obtain s1 o1 where st1: "st1 = (s1, o1)" by (cases st1)
      from only_appendsD(1)[OF assms(1) r1(1)[unfolded Inr st1]] have s1: "s1 = s" .
      have p1: "\<forall>ch\<in>set chs. ch < length (heap s) \<and>
          (\<forall>out. \<exists>r. rec ch (depth + 1) (s, out) = Some r \<and>
             (\<forall>e. r = Inl e \<longrightarrow> e = Overflow) \<and> (B \<longrightarrow> (\<exists>st. r = Inr st)))"
        using Cons.prems(1) by simp
      have p2: "B \<longrightarrow> chs = [] \<or> (INT_MIN \<le> depth + 1 \<and> depth + 1 \<le> INT_MAX)"
        using rng by simp
      from Cons.IH[OF p1 p2, of o1] show ?thesis
        using \<open>make_indent depth 1 out = Inr out1\<close> d r1(1) Inr st1 s1 by simp
    qed
  qed
qed

lemma print_childs_pct_returns:
  assumes "only_appends rec"
    and "\<forall>ch\<in>set chs. ch < length (heap s) \<and>
          (\<forall>out. \<exists>r. rec ch (depth + 1) (s, out) = Some r \<and>
             (\<forall>e. r = Inl e \<longrightarrow> e = Overflow) \<and> (B \<longrightarrow> (\<exists>st. r = Inr st)))"
    and "B \<longrightarrow> chs = [] \<or> (INT_MIN \<le> depth + 1 \<and> depth + 1 \<le> INT_MAX)"
  shows "\<exists>r. print_childs_pct rec chs depth T unit scale u (s, out) = Some r \<and>
           (\<forall>e. r = Inl e \<longrightarrow> e = Overflow) \<and> (B \<longrightarrow> (\<exists>st. r = Inr st))"
  using assms(2,3)
proof (induction chs arbitrary: out u)
  case Nil
  then show ?case by simp
next
  case (Cons ch chs)
  have chl: "ch < length (heap s)" using Cons.prems(1) by simp
  then have d: "deref (heap s) ch = Inr (heap s ! ch)" by (simp add: deref_def)
  let ?c = "heap s ! ch"
  show ?case
  proof (cases "make_indent depth 1 out")
    case (Inl e)
    from make_indent_Inl[OF Inl] Cons.prems(2) have "e = Overflow" "\<not> B" by auto
    then show ?thesis using Inl by simp
  next
    case (Inr out1)
    have rng: "INT_MIN \<le> depth + 1 \<and> depth + 1 \<le> INT_MAX"
      using make_indent_Inr(1,2)[OF Inr] by simp
    let ?o = "out1 @ [Pct (float64_mul (get_averaged_float64 ?c) scale) unit
        (float64_div (float64_mul (get_averaged_float64 ?c) 100) T) (name ?c)]"
    from Cons.prems(1) obtain r1 where r1: "rec ch (depth + 1) (s, ?o) = Some r1"
      "\<forall>e. r1 = Inl e \<longrightarrow> e = Overflow" "B \<longrightarrow> (\<exists>st. r1 = Inr st)"
      by fastforce
    show ?thesis
    proof (cases r1)
      case (Inl e)
      then have "e = Overflow" "\<not> B" using r1(2,3) by auto
      then show ?thesis using Inr d r1(1) Inl by (simp add: Let_def)
    next
      case (Inr st1)
      obtain s1 o1 where st1: "st1 = (s1, o1)" by (cases st1)
      from only_appendsD(1)[OF assms(1) r1(1)[unfolded Inr st1]] have s1: "s1 = s" .
      have p1: "\<forall>ch\<in>set chs. ch < length (heap s) \<and>
          (\<forall>out. \<exists>r. rec ch (depth + 1) (s, out) = Some r \<and>
             (\<forall>e. r = Inl e \<longrightarrow> e = Overflow) \<and> (B \<longrightarrow> (\<exists>st. r = Inr st)))"
        using Cons.prems(1) by simp
      have p2: "B \<longrightarrow> chs = [] \<or> (INT_MIN \<le> depth + 1 \<and> depth + 1 \<le> INT_MAX)"
        using rng by simp
      from Cons.IH[OF p1 p2, of "float64_sub u (get_averaged_float64 ?c)" o1] show ?thesis
        using \<open>make_indent depth 1 out = Inr out1\<close> d r1(1) Inr st1 s1 by (simp add: Let_def)
    qed
  qed
qed

lemma print_body_returns:
  assumes "only_appends rec" "node < length (heap s)"
    and "\<forall>ch\<in>set (childs (heap s ! node)). ch < length (heap s) \<and>
          (\<forall>out. \<exists>r. rec ch (depth + 1) (s, out) = Some r \<and>
             (\<forall>e. r = Inl e \<longrightarrow> e = Overflow) \<and> (B \<longrightarrow> (\<exists>st. r = Inr st)))"
    and "B \<longrightarrow> childs (heap s ! node) = [] \<or> (INT_MIN \<le> depth + 1 \<and> depth + 1 \<le> INT_MAX)"
  shows "\<exists>r. print_body rec node depth (s, out) = Some r \<and>
           (\<forall>e. r = Inl e \<longrightarrow> e = Overflow) \<and> (B \<longrightarrow> (\<exists>st. r = Inr st))"
proof -
  let ?n = "heap s ! node"
  have d: "deref (heap s) node = Inr ?n" using assms(2) by (simp add: deref_def)
  let ?T = "get_averaged_float64 ?n"
  let ?title = "if depth = 0 then [Title (name ?n)] else []"
  note ub = print_body_unfold[OF d, of rec depth, unfolded Let_def]
  show ?thesis
  proof (cases "?T < threshold_1us")
    case True
    have ub1: "print_body rec node depth (s, out) =
        print_childs_plain rec (childs ?n) depth (s, out @ ?title)"
      unfolding ub by (simp only: True if_True)
    show ?thesis unfolding ub1
      by (rule print_childs_plain_returns[OF assms(1,3,4)])
  next
    case False
    let ?unit = "if ?T < literal_0_1 then ''ms'' else ''s''"
    let ?scale = "if ?T < literal_0_1 then 1000 else 1 :: real"
    have ub2: "print_body rec node depth (s, out) =
        (case print_childs_pct rec (childs ?n) depth ?T ?unit ?scale ?T (s, out @ ?title) of
                None \<Rightarrow> None
              | Some (Inl e) \<Rightarrow> Some (Inl e)
              | Some (Inr (unaccounted, (s2, out2))) \<Rightarrow>
                  if childs ?n \<noteq> [] \<and> unaccounted > float64_mul ?T literal_0_05
                  then (case make_indent depth 1 out2 of
                          Inl e \<Rightarrow> Some (Inl e)
                        | Inr out3 \<Rightarrow>
                            Some (Inr (s2, out3 @
                              [Pct (float64_mul unaccounted ?scale) ?unit
                                 (float64_div (float64_mul unaccounted 100) ?T)
                                 ''[unaccounted]''])))
                  else Some (Inr (s2, out2)))"
      unfolding ub by (simp only: False if_False)
    from print_childs_pct_returns[OF assms(1,3,4), of ?T ?unit ?scale ?T "out @ ?title"]
    obtain r where r: "print_childs_pct rec (childs ?n) depth ?T ?unit ?scale ?T (s, out @ ?title)
        = Some r" "\<forall>e. r = Inl e \<longrightarrow> e = Overflow" "B \<longrightarrow> (\<exists>st. r = Inr st)"
      by blast
    show ?thesis
    proof (cases r)
      case (Inl e)
      then show ?thesis unfolding ub2 using r by auto
    next
      case (Inr res)
      obtain u s2 o2 where res: "res = (u, (s2, o2))" by (cases res) auto
      show ?thesis
      proof (cases "childs ?n \<noteq> [] \<and> u > float64_mul ?T literal_0_05")
        case C: True
        show ?thesis
        proof (cases "make_indent depth 1 o2")
          case Inl2: (Inl e)
          from make_indent_Inl[OF Inl2] assms(4) C have "e = Overflow" "\<not> B" by auto
          then show ?thesis unfolding ub2 r(1) Inr res using C Inl2 by simp
        next
          case Inr2: (Inr out3)
          show ?thesis unfolding ub2 r(1) Inr res using C Inr2 by simp
        qed
      next
        case False
        then show ?thesis unfolding ub2 r(1) Inr res by auto
      qed
    qed
  qed
qed

lemma print_node_returns:
  assumes "well_formed s" "node < length (heap s)" "length (heap s) - node \<le> fuel"
  shows "\<exists>r. print_node fuel node depth (s, out) = Some r \<and>
           (\<forall>e. r = Inl e \<longrightarrow> e = Overflow) \<and>
           (INT_MIN \<le> depth + 1 \<and> depth + int (length (heap s) - node) \<le> INT_MAX \<longrightarrow>
              (\<exists>st. r = Inr st))"
  using assms(2,3)
proof (induction fuel arbitrary: node depth out)
  case 0
  then show ?case by simp
next
  case (Suc k)
  let ?B = "INT_MIN \<le> depth + 1 \<and> depth + int (length (heap s) - node) \<le> INT_MAX"
  note w = well_formedD(4)[OF assms(1) Suc.prems(1)]
  have sub: "\<forall>ch\<in>set (childs (heap s ! node)). ch < length (heap s) \<and>
          (\<forall>out. \<exists>r. print_node k ch (depth + 1) (s, out) = Some r \<and>
             (\<forall>e. r = Inl e \<longrightarrow> e = Overflow) \<and> (?B \<longrightarrow> (\<exists>st. r = Inr st)))"
  proof
    fix ch assume "ch \<in> set (childs (heap s ! node))"
    from w[OF this] have c: "node < ch" "ch < length (heap s)" by simp_all
    then have f: "length (heap s) - ch \<le> k" using Suc.prems(2) by simp
    have imp: "?B \<Longrightarrow> INT_MIN \<le> depth + 1 + 1 \<and>
        depth + 1 + int (length (heap s) - ch) \<le> INT_MAX"
      using c by (simp add: INT_MIN_def)
    show "ch < length (heap s) \<and>
          (\<forall>out. \<exists>r. print_node k ch (depth + 1) (s, out) = Some r \<and>
             (\<forall>e. r = Inl e \<longrightarrow> e = Overflow) \<and> (?B \<longrightarrow> (\<exists>st. r = Inr st)))"
    proof (intro conjI allI)
      show "ch < length (heap s)" by (rule c(2))
    next
      fix out
      from Suc.IH[OF c(2) f, of "depth + 1" out] imp
      show "\<exists>r. print_node k ch (depth + 1) (s, out) = Some r \<and>
             (\<forall>e. r = Inl e \<longrightarrow> e = Overflow) \<and> (?B \<longrightarrow> (\<exists>st. r = Inr st))"
        by blast
    qed
  qed
  have ok: "?B \<longrightarrow> childs (heap s ! node) = [] \<or> (INT_MIN \<le> depth + 1 \<and> depth + 1 \<le> INT_MAX)"
  proof (cases "childs (heap s ! node)")
    case Nil
    then show ?thesis by simp
  next
    case (Cons ch chs)
    then have "ch \<in> set (childs (heap s ! node))" by simp
    from w[OF this] have "node < ch" "ch < length (heap s)" by simp_all
    then show ?thesis by auto
  qed
  from print_body_returns[OF print_node_only_appends Suc.prems(1) sub ok, of out]
  show ?case by simp
qed

section \<open>Evaluation of the concrete profiles\<close>

lemma exponent_up_numeral:
  "exponent_up (numeral k) a = (if a < 2 then 0 else 1 + exponent_up (pred_numeral k) (a / 2))"
  by (simp add: numeral_eq_Suc)

lemma exponent_down_numeral:
  "exponent_down (numeral k) a =
     (if 1 \<le> a then 0 else exponent_down (pred_numeral k) (a * 2) - 1)"
  by (simp add: numeral_eq_Suc)

lemma print_node_numeral:
  "print_node (numeral k) node depth st = print_body (print_node (pred_numeral k)) node depth st"
  by (simp add: numeral_eq_Suc)

lemma replicate_numeral_Cons: "replicate (numeral k) x = x # replicate (pred_numeral k) x"
  by (simp add: numeral_eq_Suc)

lemmas float64_eval = float64_sub_def float64_mul_def float64_div_def
  float64_round_def[unfolded Let_def] float64_exponent_def exponent_up_numeral
  exponent_down_numeral pow2_def literal_0_05_def get_averaged_float64_def

lemmas run_eval = Profiler_new_def Profiler_destroy_def push_def get_child_def deref_def
  ProfilerRecords_new_def Node_new_def stop_def assert_info_def insert_sample_def
  Node_insert_sample_def pop_def int_add_def int64_add_def INT64_MAX_def INT_MAX_def INT_MIN_def

text \<open>The two double precision literals are the decimal numbers rounded.\<close>

lemma literals_rounded:
  "float64_round (5 / 100) = literal_0_05"
  "float64_round (1 / 10) = literal_0_1"
  by (simp_all add: float64_eval literal_0_1_def)

text \<open>The nodes of the concrete profiles with the averaged times that \<^verbatim>\<open>print\<close> reads.\<close>

lemma scenario_wide_nodes:
  "root_node scenario_wide = 0"
  "heap scenario_wide \<noteq> []"
  "length (heap scenario_wide) = 7"
  "childs (heap scenario_wide ! 0) = [1, 4]"
  "childs (heap scenario_wide ! Suc 0) = [2, 3]"
  "childs (heap scenario_wide ! 2) = []"
  "childs (heap scenario_wide ! 3) = []"
  "childs (heap scenario_wide ! 4) = [5, 6]"
  "childs (heap scenario_wide ! 5) = []"
  "childs (heap scenario_wide ! 6) = []"
  "name (heap scenario_wide ! 0) = ''[Taichi Profiler]''"
  "name (heap scenario_wide ! Suc 0) = ''A''"
  "name (heap scenario_wide ! 2) = ''B''"
  "name (heap scenario_wide ! 3) = ''C''"
  "name (heap scenario_wide ! 4) = ''D''"
  "name (heap scenario_wide ! 5) = ''E''"
  "name (heap scenario_wide ! 6) = ''F''"
  "get_averaged_float64 (heap scenario_wide ! 0) = 0"
  "get_averaged_float64 (heap scenario_wide ! Suc 0) = 1 / 4"
  "get_averaged_float64 (heap scenario_wide ! 2) = 1 / 16"
  "get_averaged_float64 (heap scenario_wide ! 3) = 1 / 32"
  "get_averaged_float64 (heap scenario_wide ! 4) = 1 / 32"
  "get_averaged_float64 (heap scenario_wide ! 5) = 1 / 64"
  "get_averaged_float64 (heap scenario_wide ! 6) = 1 / 64"
  by (simp_all add: scenario_wide_def float64_eval)

lemma scenario_boundary_nodes:
  "root_node scenario_boundary = 0"
  "heap scenario_boundary \<noteq> []"
  "length (heap scenario_boundary) = 7"
  "childs (heap scenario_boundary ! 0) = [1]"
  "childs (heap scenario_boundary ! Suc 0) = [2, 3, 4, 5, 6]"
  "childs (heap scenario_boundary ! 2) = []"
  "childs (heap scenario_boundary ! 3) = []"
  "childs (heap scenario_boundary ! 4) = []"
  "childs (heap scenario_boundary ! 5) = []"
  "childs (heap scenario_boundary ! 6) = []"
  "name (heap scenario_boundary ! 0) = ''[Taichi Profiler]''"
  "name (heap scenario_boundary ! Suc 0) = ''A''"
  "name (heap scenario_boundary ! 2) = ''Z''"
  "name (heap scenario_boundary ! 3) = ''V''"
  "name (heap scenario_boundary ! 4) = ''W''"
  "name (heap scenario_boundary ! 5) = ''X''"
  "name (heap scenario_boundary ! 6) = ''Y''"
  "get_averaged_float64 (heap scenario_boundary ! 0) = 0"
  "get_averaged_float64 (heap scenario_boundary ! Suc 0) = 1"
  "get_averaged_float64 (heap scenario_boundary ! 2) = 7205759403792797 / 2 ^ 59"
  "get_averaged_float64 (heap scenario_boundary ! 3) = 1 / 2"
  "get_averaged_float64 (heap scenario_boundary ! 4) = 1 / 4"
  "get_averaged_float64 (heap scenario_boundary ! 5) = 1 / 8"
  "get_averaged_float64 (heap scenario_boundary ! 6) = 1 / 16"
  by (simp_all add: scenario_boundary_def float64_eval)

lemma short_regions_nodes:
  "root_node short_regions = 0"
  "heap short_regions \<noteq> []"
  "length (heap short_regions) = 3"
  "childs (heap short_regions ! 0) = [1]"
  "childs (heap short_regions ! Suc 0) = [2]"
  "childs (heap short_regions ! 2) = []"
  "name (heap short_regions ! 0) = ''[Taichi Profiler]''"
  "name (heap short_regions ! Suc 0) = ''A''"
  "name (heap short_regions ! 2) = ''B''"
  "get_averaged_float64 (heap short_regions ! 0) = 0"
  "get_averaged_float64 (heap short_regions ! Suc 0) = 1 / 2 ^ 21"
  "get_averaged_float64 (heap short_regions ! 2) = 1 / 2 ^ 23"
  by (simp_all add: short_regions_def float64_eval)

lemma scenario_at_literal_nodes:
  "root_node scenario_at_literal = 0"
  "heap scenario_at_literal \<noteq> []"
  "length (heap scenario_at_literal) = 7"
  "childs (heap scenario_at_literal ! 0) = [1]"
  "childs (heap scenario_at_literal ! Suc 0) = [2, 3, 4, 5, 6]"
  "childs (heap scenario_at_literal ! 2) = []"
  "childs (heap scenario_at_literal ! 3) = []"
  "childs (heap scenario_at_literal ! 4) = []"
  "childs (heap scenario_at_literal ! 5) = []"
  "childs (heap scenario_at_literal ! 6) = []"
  "name (heap scenario_at_literal ! 0) = ''[Taichi Profiler]''"
  "name (heap scenario_at_literal ! Suc 0) = ''A''"
  "name (heap scenario_at_literal ! 2) = ''V''"
  "name (heap scenario_at_literal ! 3) = ''W''"
  "name (heap scenario_at_literal ! 4) = ''X''"
  "name (heap scenario_at_literal ! 5) = ''Y''"
  "name (heap scenario_at_literal ! 6) = ''Z''"
  "get_averaged_float64 (heap scenario_at_literal ! 0) = 0"
  "get_averaged_float64 (heap scenario_at_literal ! Suc 0) = 1"
  "get_averaged_float64 (heap scenario_at_literal ! 2) = 1 / 2"
  "get_averaged_float64 (heap scenario_at_literal ! 3) = 1 / 4"
  "get_averaged_float64 (heap scenario_at_literal ! 4) = 1 / 8"
  "get_averaged_float64 (heap scenario_at_literal ! 5) = 1 / 16"
  "get_averaged_float64 (heap scenario_at_literal ! 6) = 900719925474099 / 2 ^ 56"
  by (simp_all add: scenario_at_literal_def float64_eval)

lemmas print_eval = print_all_def print_node_numeral print_body_def make_indent_def int_add_def
  INT_MAX_def INT_MIN_def deref_def threshold_1us_def literal_0_1_def Let_def
  replicate_numeral_Cons


lemma step_well_formed:
  assumes "well_formed s" "step e (stk, s) = Inr (stk', s')"
  shows "well_formed s'"
proof (cases e)
  case (Begin nm now)
  with assms(2) have "push nm s = Inr s'"
    by (auto simp: Profiler_new_def Let_def split: sum.splits)
  then show ?thesis by (rule well_formed_push[OF assms(1)])
next
  case (Stop now)
  show ?thesis
  proof (cases stk)
    case Nil
    with assms Stop show ?thesis by simp
  next
    case (Cons p ps)
    with assms(2) Stop obtain p' where "stop now p s = Inr (p', s')"
      by (auto split: sum.splits)
    from stop_Inr[OF this] obtain s1 where
      "insert_sample (now - start_time p) s = Inr s1" "pop s1 = Inr s'" by blast
    then show ?thesis using well_formed_insert_sample[OF assms(1)] well_formed_pop by blast
  qed
next
  case (End now)
  show ?thesis
  proof (cases stk)
    case Nil
    with assms End show ?thesis by simp
  next
    case (Cons p ps)
    with assms(2) End obtain p' where d: "Profiler_destroy now p s = Inr (p', s')"
      by (auto split: sum.splits)
    show ?thesis
    proof (cases "stopped p")
      case True
      with d have "s' = s" by (simp add: Profiler_destroy_def)
      then show ?thesis using assms(1) by simp
    next
      case False
      with d have "stop now p s = Inr (p', s')" by (simp add: Profiler_destroy_def)
      from stop_Inr[OF this] obtain s1 where
        "insert_sample (now - start_time p) s = Inr s1" "pop s1 = Inr s'" by blast
      then show ?thesis using well_formed_insert_sample[OF assms(1)] well_formed_pop by blast
    qed
  qed
qed

lemma run_well_formed:
  assumes "well_formed s" "run es (stk, s) = Inr (stk', s')"
  shows "well_formed s'"
  using assms
proof (induction es arbitrary: stk s)
  case Nil
  then show ?case by simp
next
  case (Cons e es)
  from Cons.prems(2) obtain stk1 s1 where
    s: "step e (stk, s) = Inr (stk1, s1)" and r: "run es (stk1, s1) = Inr (stk', s')"
    by (auto split: sum.splits)
  from Cons.IH[OF step_well_formed[OF Cons.prems(1) s] r] show ?case .
qed

lemma scenario_wide_run:
  "run [Begin ''A'' 0, Begin ''B'' 0, End (1 / 8), Begin ''C'' (1 / 8), End (3 / 16),
        End (1 / 2), Begin ''D'' (1 / 2), Begin ''E'' (1 / 2), End (17 / 32),
        Begin ''F'' (17 / 32), End (9 / 16), End (9 / 16)]
     ([], ProfilerRecords_new) = Inr ([], scenario_wide)"
  by (simp add: run_eval scenario_wide_def)

lemma scenario_wide_well_formed: "well_formed scenario_wide"
  by (rule run_well_formed[OF well_formed_new scenario_wide_run])

lemma scenario_boundary_run:
  "run [Begin ''A'' 0, Begin ''Z'' 0, End (7205759403792797 / 2 ^ 58),
        Begin ''V'' (1 / 32), End (33 / 32), Begin ''W'' (33 / 32), End (49 / 32),
        Begin ''X'' (49 / 32), End (57 / 32), Begin ''Y'' (57 / 32), End (61 / 32), End 2]
     ([], ProfilerRecords_new) = Inr ([], scenario_boundary)"
  by (simp add: run_eval scenario_boundary_def)

lemma scenario_boundary_well_formed: "well_formed scenario_boundary"
  by (rule run_well_formed[OF well_formed_new scenario_boundary_run])

lemma scenario_at_literal_well_formed: "well_formed scenario_at_literal"
  by (rule well_formedI) (auto simp: scenario_at_literal_def nth_Cons' split: if_splits)

lemma short_regions_run:
  "run [Begin ''A'' 0, Begin ''B'' 0, End (1 / 2 ^ 22), End (1 / 2 ^ 20)]
     ([], ProfilerRecords_new) = Inr ([], short_regions)"
  by (simp add: run_eval short_regions_def)

text \<open>
  Claim C9. Rendering is read-only. On every well-formed state (so on every reachable
  one) \<^verbatim>\<open>print()\<close> returns, given fuel for the depth of the tree, and when it returns
  normally the profiler state after the call is the state before it: every node with
  its name, child list, total time and sample count, the root, the cursor and the
  depth. The only other outcome is the overflow of the \<^verbatim>\<open>int\<close> depth, which needs a
  tree of more than \<open>INT_MAX\<close> nodes.
\<close>

theorem print_returns_state_unchanged:
  assumes "well_formed s" "length (heap s) \<le> fuel"
  shows "\<exists>r. print_all fuel (s, out) = Some r \<and>
           (case r of
              Inl e \<Rightarrow> e = Overflow \<and> INT_MAX < int (length (heap s))
            | Inr (s', out') \<Rightarrow> s' = s)"
proof -
  have rl: "root_node s < length (heap s)" using well_formedD(1)[OF assms(1)] .
  then have f: "length (heap s) - root_node s \<le> fuel" using assms(2) by simp
  from print_node_returns[OF assms(1) rl f, of 0 out] obtain r where
    r: "print_node fuel (root_node s) 0 (s, out) = Some r"
      "\<forall>e. r = Inl e \<longrightarrow> e = Overflow"
      "INT_MIN \<le> 0 + 1 \<and> 0 + int (length (heap s) - root_node s) \<le> INT_MAX \<longrightarrow>
              (\<exists>st. r = Inr st)" by blast
  have p: "print_all fuel (s, out) = Some r" using r(1) by (simp add: print_all_def)
  show ?thesis
  proof (cases r)
    case (Inl e)
    then have "\<not> (INT_MIN \<le> 0 + 1 \<and> 0 + int (length (heap s) - root_node s) \<le> INT_MAX)"
      using r(3) by auto
    then have "INT_MAX < int (length (heap s))" by (auto simp: INT_MIN_def)
    then show ?thesis using p Inl r(2) by simp
  next
    case (Inr st)
    obtain s' out' where st: "st = (s', out')" by (cases st)
    from only_appendsD(1)[OF print_node_only_appends r(1)[unfolded Inr st]]
    show ?thesis using p Inr st by simp
  qed
qed

theorem print_returns_state_unchanged_witness:
  "well_formed scenario_wide \<and> length (heap scenario_wide) \<le> 7 \<and>
   print_all 7 (scenario_wide, []) =
     Some (Inr (scenario_wide,
       [Title ''[Taichi Profiler]'',
        Indent, Plain (1 / 4) ''A'',
        Indent, Indent, Pct (1 / 16) ''s'' 25 ''B'',
        Indent, Indent, Pct (1 / 32) ''s'' (25 / 2) ''C'',
        Indent, Indent, Pct (5 / 32) ''s'' (125 / 2) ''[unaccounted]'',
        Indent, Plain (1 / 32) ''D'',
        Indent, Indent, Pct (125 / 8) ''ms'' 50 ''E'',
        Indent, Indent, Pct (125 / 8) ''ms'' 50 ''F'']))"
proof -
  have l: "length (heap scenario_wide) \<le> 7" by (simp add: scenario_wide_def)
  have p: "print_all 7 (scenario_wide, []) =
     Some (Inr (scenario_wide,
       [Title ''[Taichi Profiler]'',
        Indent, Plain (1 / 4) ''A'',
        Indent, Indent, Pct (1 / 16) ''s'' 25 ''B'',
        Indent, Indent, Pct (1 / 32) ''s'' (25 / 2) ''C'',
        Indent, Indent, Pct (5 / 32) ''s'' (125 / 2) ''[unaccounted]'',
        Indent, Plain (1 / 32) ''D'',
        Indent, Indent, Pct (125 / 8) ''ms'' 50 ''E'',
        Indent, Indent, Pct (125 / 8) ''ms'' 50 ''F'']))"
    by (simp add: print_eval scenario_wide_nodes) (simp_all add: float64_eval)
  from print_returns_state_unchanged[OF scenario_wide_well_formed l, of "[]"] p
  show ?thesis using scenario_wide_well_formed l by simp
qed

section \<open>Units, scales and the unaccounted line\<close>

text \<open>
  On a well-formed state, with fuel for the nodes allocated after \<open>node\<close> and a depth
  that stays inside \<^verbatim>\<open>int\<close>, the expansion of a node returns normally, as does the
  recursive call for each of its children.
\<close>

lemma print_node_total:
  assumes "well_formed s" "node < length (heap s)" "length (heap s) - node \<le> Suc fuel"
    "INT_MIN \<le> depth + 1" "depth + int (length (heap s) - node) \<le> INT_MAX"
  shows "print_node (Suc fuel) node depth (s, out) =
           Some (Inr (s, out @ spec_node_lines (print_node fuel) node depth s))"
    and "\<And>ch q. ch \<in> set (childs (heap s ! node)) \<Longrightarrow>
           print_node fuel ch (depth + 1) (s, q) =
             Some (Inr (s, q @ printed (print_node fuel) ch (depth + 1) s))"
proof -
  from print_node_returns[OF assms(1,2,3), of depth out] assms(4,5) obtain st where
    st: "print_node (Suc fuel) node depth (s, out) = Some (Inr st)" by blast
  obtain s' out' where p: "st = (s', out')" by (cases st)
  from print_node_Suc_lines[OF st[unfolded p]] st p
  show "print_node (Suc fuel) node depth (s, out) =
           Some (Inr (s, out @ spec_node_lines (print_node fuel) node depth s))" by simp
next
  fix ch q
  assume "ch \<in> set (childs (heap s ! node))"
  from well_formedD(4)[OF assms(1,2) this] have c: "node < ch" "ch < length (heap s)"
    by simp_all
  then have f: "length (heap s) - ch \<le> fuel" using assms(3) by simp
  have b: "INT_MIN \<le> depth + 1 + 1 \<and> depth + 1 + int (length (heap s) - ch) \<le> INT_MAX"
    using c assms(4,5) by (simp add: INT_MIN_def)
  from print_node_returns[OF assms(1) c(2) f, of "depth + 1" q] b obtain st where
    st: "print_node fuel ch (depth + 1) (s, q) = Some (Inr st)" by blast
  obtain s' out' where p: "st = (s', out')" by (cases st)
  from only_appendsD(3)[OF print_node_only_appends st[unfolded p], of q]
  show "print_node fuel ch (depth + 1) (s, q) =
             Some (Inr (s, q @ printed (print_node fuel) ch (depth + 1) s))" .
qed

text \<open>
  Claim C7. On a well-formed state, with a depth that stays inside \<^verbatim>\<open>int\<close>,
  \<^verbatim>\<open>print(node, depth)\<close> returns normally and leaves the state as it is, and so does
  the recursive call for every child. What the call appends is fixed by the node's own
  averaged total, the \<^verbatim>\<open>float64\<close> that \<^verbatim>\<open>get_averaged\<close> returns. Below the threshold (the
  literal \<^verbatim>\<open>1e-6f\<close>) every child is listed with its averaged time in seconds and no
  percentage, one level deeper than the node; nothing else is printed at this level.
  Otherwise every child line carries the same unit and scale, \<open>ms\<close> and 1000 when the
  averaged total is below the literal \<^verbatim>\<open>0.1\<close> and \<open>s\<close> and 1 when it is not, with the
  \<^verbatim>\<open>float64\<close> product of the child's averaged time and the scale and the \<^verbatim>\<open>float64\<close>
  percentage of the node's averaged total; after the children comes at most one line,
  labelled \<open>[unaccounted]\<close>, in that unit.

  In both cases the line of a child is followed by what the recursive call prints for
  that child one level deeper. This is the reading taken of "recursing without
  percentage computation for that subtree": the lines of the children of a node below
  the threshold carry no percentage, and the recursive call is the ordinary
  \<^verbatim>\<open>print\<close>, which chooses unit, scale and percentages for the child's own children from
  the child's own averaged total. The root, whose total is never written, is always
  below the threshold; the regions under it are rendered with percentages.
\<close>

theorem render_unit_and_scale:
  assumes "well_formed s" "node < length (heap s)" "length (heap s) - node \<le> Suc fuel"
    "INT_MIN \<le> depth + 1" "depth + int (length (heap s) - node) \<le> INT_MAX"
  shows "\<exists>out'. print_node (Suc fuel) node depth (s, out) = Some (Inr (s, out')) \<and>
           (\<forall>ch\<in>set (childs (heap s ! node)). \<forall>q.
              print_node fuel ch (depth + 1) (s, q) =
                Some (Inr (s, q @ printed (print_node fuel) ch (depth + 1) s))) \<and>
           (let n = heap s ! node;
                avg = get_averaged_float64 n;
                title = (if depth = 0 then [Title (name n)] else []);
                indent = replicate (nat (depth + 1)) Indent;
                unit = (if avg < literal_0_1 then ''ms'' else ''s'');
                scale = (if avg < literal_0_1 then 1000 else 1)
            in (avg < threshold_1us \<longrightarrow>
                  out' = out @ title @
                    concat (map (\<lambda>ch. indent @
                                   [Plain (get_averaged_float64 (heap s ! ch)) (name (heap s ! ch))] @
                                   printed (print_node fuel) ch (depth + 1) s) (childs n))) \<and>
               (\<not> avg < threshold_1us \<longrightarrow>
                  (\<exists>tail. out' = out @ title @
                     concat (map (\<lambda>ch. indent @
                                   [Pct (float64_mul (get_averaged_float64 (heap s ! ch)) scale) unit
                                      (float64_div (float64_mul (get_averaged_float64 (heap s ! ch)) 100)
                                         avg)
                                      (name (heap s ! ch))] @
                                   printed (print_node fuel) ch (depth + 1) s) (childs n)) @
                     tail \<and>
                     (tail = [] \<or> (\<exists>v p. tail = indent @ [Pct v unit p ''[unaccounted]''])))))"
proof -
  note t = print_node_total[OF assms]
  let ?out = "out @ spec_node_lines (print_node fuel) node depth s"
  have l: "let n = heap s ! node;
                avg = get_averaged_float64 n;
                title = (if depth = 0 then [Title (name n)] else []);
                indent = replicate (nat (depth + 1)) Indent;
                unit = (if avg < literal_0_1 then ''ms'' else ''s'');
                scale = (if avg < literal_0_1 then 1000 else 1)
            in (avg < threshold_1us \<longrightarrow>
                  ?out = out @ title @
                    concat (map (\<lambda>ch. indent @
                                   [Plain (get_averaged_float64 (heap s ! ch)) (name (heap s ! ch))] @
                                   printed (print_node fuel) ch (depth + 1) s) (childs n))) \<and>
               (\<not> avg < threshold_1us \<longrightarrow>
                  (\<exists>tail. ?out = out @ title @
                     concat (map (\<lambda>ch. indent @
                                   [Pct (float64_mul (get_averaged_float64 (heap s ! ch)) scale) unit
                                      (float64_div (float64_mul (get_averaged_float64 (heap s ! ch)) 100)
                                         avg)
                                      (name (heap s ! ch))] @
                                   printed (print_node fuel) ch (depth + 1) s) (childs n)) @
                     tail \<and>
                     (tail = [] \<or> (\<exists>v p. tail = indent @ [Pct v unit p ''[unaccounted]'']))))"
    unfolding Let_def spec_node_lines_unfold[OF refl] spec_plain_lines_def spec_pct_lines_def
    by auto
  have c: "\<forall>ch\<in>set (childs (heap s ! node)). \<forall>q.
              print_node fuel ch (depth + 1) (s, q) =
                Some (Inr (s, q @ printed (print_node fuel) ch (depth + 1) s))"
    using t(2) by blast
  show ?thesis
    by (rule exI[of _ ?out]) (intro conjI t(1) c l)
qed

theorem render_unit_and_scale_witness:
  "well_formed scenario_wide \<and>
   get_averaged_float64 (heap scenario_wide ! 0) < threshold_1us \<and>
   childs (heap scenario_wide ! 0) = [1, 4] \<and>
   print_node 7 0 0 (scenario_wide, []) =
     Some (Inr (scenario_wide,
       [Title ''[Taichi Profiler]'',
        Indent, Plain (1 / 4) ''A'',
        Indent, Indent, Pct (1 / 16) ''s'' 25 ''B'',
        Indent, Indent, Pct (1 / 32) ''s'' (25 / 2) ''C'',
        Indent, Indent, Pct (5 / 32) ''s'' (125 / 2) ''[unaccounted]'',
        Indent, Plain (1 / 32) ''D'',
        Indent, Indent, Pct (125 / 8) ''ms'' 50 ''E'',
        Indent, Indent, Pct (125 / 8) ''ms'' 50 ''F''])) \<and>
   \<not> get_averaged_float64 (heap scenario_wide ! 1) < threshold_1us \<and>
   \<not> get_averaged_float64 (heap scenario_wide ! 1) < literal_0_1 \<and>
   childs (heap scenario_wide ! 1) = [2, 3] \<and>
   print_node 6 1 1 (scenario_wide, []) =
     Some (Inr (scenario_wide,
       [Indent, Indent, Pct (1 / 16) ''s'' 25 ''B'',
        Indent, Indent, Pct (1 / 32) ''s'' (25 / 2) ''C'',
        Indent, Indent, Pct (5 / 32) ''s'' (125 / 2) ''[unaccounted]''])) \<and>
   \<not> get_averaged_float64 (heap scenario_wide ! 4) < threshold_1us \<and>
   get_averaged_float64 (heap scenario_wide ! 4) < literal_0_1 \<and>
   childs (heap scenario_wide ! 4) = [5, 6] \<and>
   print_node 3 4 1 (scenario_wide, []) =
     Some (Inr (scenario_wide,
       [Indent, Indent, Pct (125 / 8) ''ms'' 50 ''E'',
        Indent, Indent, Pct (125 / 8) ''ms'' 50 ''F'']))"
proof -
  note w = scenario_wide_well_formed
  have e1: "print_node 7 0 0 (scenario_wide, []) =
     Some (Inr (scenario_wide,
       [Title ''[Taichi Profiler]'',
        Indent, Plain (1 / 4) ''A'',
        Indent, Indent, Pct (1 / 16) ''s'' 25 ''B'',
        Indent, Indent, Pct (1 / 32) ''s'' (25 / 2) ''C'',
        Indent, Indent, Pct (5 / 32) ''s'' (125 / 2) ''[unaccounted]'',
        Indent, Plain (1 / 32) ''D'',
        Indent, Indent, Pct (125 / 8) ''ms'' 50 ''E'',
        Indent, Indent, Pct (125 / 8) ''ms'' 50 ''F'']))"
    by (simp add: print_eval scenario_wide_nodes) (simp_all add: float64_eval)
  have e2: "print_node 6 1 1 (scenario_wide, []) =
     Some (Inr (scenario_wide,
       [Indent, Indent, Pct (1 / 16) ''s'' 25 ''B'',
        Indent, Indent, Pct (1 / 32) ''s'' (25 / 2) ''C'',
        Indent, Indent, Pct (5 / 32) ''s'' (125 / 2) ''[unaccounted]'']))"
    by (simp add: print_eval scenario_wide_nodes) (simp_all add: float64_eval)
  have e3: "print_node 3 4 1 (scenario_wide, []) =
     Some (Inr (scenario_wide,
       [Indent, Indent, Pct (125 / 8) ''ms'' 50 ''E'',
        Indent, Indent, Pct (125 / 8) ''ms'' 50 ''F'']))"
    by (simp add: print_eval scenario_wide_nodes) (simp_all add: float64_eval)
  have c: "get_averaged_float64 (heap scenario_wide ! 0) < threshold_1us"
    "childs (heap scenario_wide ! 0) = [1, 4]"
    "\<not> get_averaged_float64 (heap scenario_wide ! 1) < threshold_1us"
    "\<not> get_averaged_float64 (heap scenario_wide ! 1) < literal_0_1"
    "childs (heap scenario_wide ! 1) = [2, 3]"
    "\<not> get_averaged_float64 (heap scenario_wide ! 4) < threshold_1us"
    "get_averaged_float64 (heap scenario_wide ! 4) < literal_0_1"
    "childs (heap scenario_wide ! 4) = [5, 6]"
    by (simp_all add: scenario_wide_nodes threshold_1us_def literal_0_1_def)
  have h1: "0 < length (heap scenario_wide)" "length (heap scenario_wide) - 0 \<le> Suc 6"
    "INT_MIN \<le> 0 + 1" "0 + int (length (heap scenario_wide) - 0) \<le> INT_MAX"
    by (simp_all add: scenario_wide_def INT_MIN_def INT_MAX_def)
  have h2: "1 < length (heap scenario_wide)" "length (heap scenario_wide) - 1 \<le> Suc 5"
    "INT_MIN \<le> 1 + 1" "1 + int (length (heap scenario_wide) - 1) \<le> INT_MAX"
    by (simp_all add: scenario_wide_def INT_MIN_def INT_MAX_def)
  have h3: "4 < length (heap scenario_wide)" "length (heap scenario_wide) - 4 \<le> Suc 2"
    "INT_MIN \<le> 1 + 1" "1 + int (length (heap scenario_wide) - 4) \<le> INT_MAX"
    by (simp_all add: scenario_wide_def INT_MIN_def INT_MAX_def)
  from render_unit_and_scale[OF w h1, of "[]"] render_unit_and_scale[OF w h2, of "[]"]
    render_unit_and_scale[OF w h3, of "[]"]
  show ?thesis using e1 e2 e3 c w by simp
qed

text \<open>
  Claim C8, amended. On a well-formed state, with a depth that stays inside \<^verbatim>\<open>int\<close>,
  \<^verbatim>\<open>print(node, depth)\<close> returns normally. For a node whose averaged total is not
  below the threshold, the lines of the children are followed by an \<open>[unaccounted]\<close>
  line exactly when the node has a child and the remainder exceeds 5% of the averaged
  total, both as the code computes them in \<^verbatim>\<open>float64\<close>: the remainder is the averaged
  total with the averaged times of the children subtracted one after the other, and
  5% of the averaged total is its product with the literal \<^verbatim>\<open>0.05\<close>. The line shows the
  remainder in the unit of the node and its percentage, at the indentation of the
  children. For a node below the threshold nothing follows the lines of the children.
\<close>

theorem unaccounted_line_iff_above_threshold:
  assumes "well_formed s" "node < length (heap s)" "length (heap s) - node \<le> Suc fuel"
    "INT_MIN \<le> depth + 1" "depth + int (length (heap s) - node) \<le> INT_MAX"
  shows "\<exists>out'. print_node (Suc fuel) node depth (s, out) = Some (Inr (s, out')) \<and>
           (let n = heap s ! node;
                avg = get_averaged_float64 n;
                title = (if depth = 0 then [Title (name n)] else []);
                indent = replicate (nat (depth + 1)) Indent;
                unit = (if avg < literal_0_1 then ''ms'' else ''s'');
                scale = (if avg < literal_0_1 then 1000 else 1);
                rest = running_remainder s avg (childs n)
            in (\<not> avg < threshold_1us \<longrightarrow>
                  out' = out @ title @
                    spec_pct_lines (print_node fuel) depth avg unit scale s (childs n) @
                    (if childs n \<noteq> [] \<and> rest > float64_mul avg literal_0_05
                     then indent @ [Pct (float64_mul rest scale) unit
                                      (float64_div (float64_mul rest 100) avg)
                                      ''[unaccounted]'']
                     else [])) \<and>
               (avg < threshold_1us \<longrightarrow>
                  out' = out @ title @
                    spec_plain_lines (print_node fuel) depth s (childs n)))"
proof -
  note t = print_node_total(1)[OF assms]
  let ?out = "out @ spec_node_lines (print_node fuel) node depth s"
  have l: "let n = heap s ! node;
                avg = get_averaged_float64 n;
                title = (if depth = 0 then [Title (name n)] else []);
                indent = replicate (nat (depth + 1)) Indent;
                unit = (if avg < literal_0_1 then ''ms'' else ''s'');
                scale = (if avg < literal_0_1 then 1000 else 1);
                rest = running_remainder s avg (childs n)
            in (\<not> avg < threshold_1us \<longrightarrow>
                  ?out = out @ title @
                    spec_pct_lines (print_node fuel) depth avg unit scale s (childs n) @
                    (if childs n \<noteq> [] \<and> rest > float64_mul avg literal_0_05
                     then indent @ [Pct (float64_mul rest scale) unit
                                      (float64_div (float64_mul rest 100) avg)
                                      ''[unaccounted]'']
                     else [])) \<and>
               (avg < threshold_1us \<longrightarrow>
                  ?out = out @ title @
                    spec_plain_lines (print_node fuel) depth s (childs n))"
    unfolding Let_def spec_node_lines_unfold[OF refl]
    by auto
  show ?thesis
    by (rule exI[of _ ?out]) (intro conjI t l)
qed

theorem unaccounted_line_iff_above_threshold_witness:
  "well_formed scenario_wide \<and> well_formed scenario_boundary \<and>
   \<not> get_averaged_float64 (heap scenario_wide ! 1) < threshold_1us \<and>
   childs (heap scenario_wide ! 1) = [2, 3] \<and>
   running_remainder scenario_wide (get_averaged_float64 (heap scenario_wide ! 1)) [2, 3] =
     5 / 32 \<and>
   float64_mul (get_averaged_float64 (heap scenario_wide ! 1)) literal_0_05 =
     3602879701896397 / 2 ^ 58 \<and>
   print_node 6 1 1 (scenario_wide, []) =
     Some (Inr (scenario_wide,
       [Indent, Indent, Pct (1 / 16) ''s'' 25 ''B'',
        Indent, Indent, Pct (1 / 32) ''s'' (25 / 2) ''C'',
        Indent, Indent, Pct (5 / 32) ''s'' (125 / 2) ''[unaccounted]''])) \<and>
   \<not> get_averaged_float64 (heap scenario_wide ! 4) < threshold_1us \<and>
   childs (heap scenario_wide ! 4) = [5, 6] \<and>
   running_remainder scenario_wide (get_averaged_float64 (heap scenario_wide ! 4)) [5, 6] = 0 \<and>
   float64_mul (get_averaged_float64 (heap scenario_wide ! 4)) literal_0_05 =
     3602879701896397 / 2 ^ 61 \<and>
   print_node 3 4 1 (scenario_wide, []) =
     Some (Inr (scenario_wide,
       [Indent, Indent, Pct (125 / 8) ''ms'' 50 ''E'',
        Indent, Indent, Pct (125 / 8) ''ms'' 50 ''F''])) \<and>
   \<not> get_averaged_float64 (heap scenario_wide ! 2) < threshold_1us \<and>
   childs (heap scenario_wide ! 2) = [] \<and>
   print_node 5 2 2 (scenario_wide, []) = Some (Inr (scenario_wide, [])) \<and>
   get_averaged_float64 (heap scenario_wide ! 0) < threshold_1us \<and>
   childs (heap scenario_wide ! 0) = [1, 4] \<and>
   print_node 7 0 0 (scenario_wide, []) =
     Some (Inr (scenario_wide,
       [Title ''[Taichi Profiler]'',
        Indent, Plain (1 / 4) ''A'',
        Indent, Indent, Pct (1 / 16) ''s'' 25 ''B'',
        Indent, Indent, Pct (1 / 32) ''s'' (25 / 2) ''C'',
        Indent, Indent, Pct (5 / 32) ''s'' (125 / 2) ''[unaccounted]'',
        Indent, Plain (1 / 32) ''D'',
        Indent, Indent, Pct (125 / 8) ''ms'' 50 ''E'',
        Indent, Indent, Pct (125 / 8) ''ms'' 50 ''F''])) \<and>
   \<not> get_averaged_float64 (heap scenario_boundary ! 1) < threshold_1us \<and>
   childs (heap scenario_boundary ! 1) = [2, 3, 4, 5, 6] \<and>
   running_remainder scenario_boundary (get_averaged_float64 (heap scenario_boundary ! 1))
     [2, 3, 4, 5, 6] = 225179981368525 / 2 ^ 52 \<and>
   float64_mul (get_averaged_float64 (heap scenario_boundary ! 1)) literal_0_05 =
     3602879701896397 / 2 ^ 56 \<and>
   print_node 6 1 1 (scenario_boundary, []) =
     Some (Inr (scenario_boundary,
       [Indent, Indent,
        Pct (7205759403792797 / 2 ^ 59) ''s'' (5629499534213123 / 2 ^ 52) ''Z'',
        Indent, Indent, Pct (1 / 2) ''s'' 50 ''V'',
        Indent, Indent, Pct (1 / 4) ''s'' 25 ''W'',
        Indent, Indent, Pct (1 / 8) ''s'' (25 / 2) ''X'',
        Indent, Indent, Pct (1 / 16) ''s'' (25 / 4) ''Y'',
        Indent, Indent,
        Pct (225179981368525 / 2 ^ 52) ''s'' (5629499534213125 / 2 ^ 50) ''[unaccounted]''])) \<and>
   well_formed scenario_at_literal \<and>
   \<not> get_averaged_float64 (heap scenario_at_literal ! 1) < threshold_1us \<and>
   childs (heap scenario_at_literal ! 1) = [2, 3, 4, 5, 6] \<and>
   running_remainder scenario_at_literal (get_averaged_float64 (heap scenario_at_literal ! 1))
     [2, 3, 4, 5, 6] = 3602879701896397 / 2 ^ 56 \<and>
   float64_mul (get_averaged_float64 (heap scenario_at_literal ! 1)) literal_0_05 =
     3602879701896397 / 2 ^ 56 \<and>
   print_node 6 1 1 (scenario_at_literal, []) =
     Some (Inr (scenario_at_literal,
       [Indent, Indent, Pct (1 / 2) ''s'' 50 ''V'',
        Indent, Indent, Pct (1 / 4) ''s'' 25 ''W'',
        Indent, Indent, Pct (1 / 8) ''s'' (25 / 2) ''X'',
        Indent, Indent, Pct (1 / 16) ''s'' (25 / 4) ''Y'',
        Indent, Indent,
        Pct (900719925474099 / 2 ^ 56) ''s'' (5629499534213119 / 2 ^ 52) ''Z'']))"
proof -
  note w = scenario_wide_well_formed
  note wb = scenario_boundary_well_formed
  note wl = scenario_at_literal_well_formed
  have e1: "print_node 6 1 1 (scenario_wide, []) =
     Some (Inr (scenario_wide,
       [Indent, Indent, Pct (1 / 16) ''s'' 25 ''B'',
        Indent, Indent, Pct (1 / 32) ''s'' (25 / 2) ''C'',
        Indent, Indent, Pct (5 / 32) ''s'' (125 / 2) ''[unaccounted]'']))"
    by (simp add: print_eval scenario_wide_nodes) (simp_all add: float64_eval)
  have e2: "print_node 3 4 1 (scenario_wide, []) =
     Some (Inr (scenario_wide,
       [Indent, Indent, Pct (125 / 8) ''ms'' 50 ''E'',
        Indent, Indent, Pct (125 / 8) ''ms'' 50 ''F'']))"
    by (simp add: print_eval scenario_wide_nodes) (simp_all add: float64_eval)
  have e3: "print_node 5 2 2 (scenario_wide, []) = Some (Inr (scenario_wide, []))"
    by (simp add: print_eval scenario_wide_nodes)
  have e4: "print_node 7 0 0 (scenario_wide, []) =
     Some (Inr (scenario_wide,
       [Title ''[Taichi Profiler]'',
        Indent, Plain (1 / 4) ''A'',
        Indent, Indent, Pct (1 / 16) ''s'' 25 ''B'',
        Indent, Indent, Pct (1 / 32) ''s'' (25 / 2) ''C'',
        Indent, Indent, Pct (5 / 32) ''s'' (125 / 2) ''[unaccounted]'',
        Indent, Plain (1 / 32) ''D'',
        Indent, Indent, Pct (125 / 8) ''ms'' 50 ''E'',
        Indent, Indent, Pct (125 / 8) ''ms'' 50 ''F'']))"
    by (simp add: print_eval scenario_wide_nodes) (simp_all add: float64_eval)
  have e5: "print_node 6 1 1 (scenario_boundary, []) =
     Some (Inr (scenario_boundary,
       [Indent, Indent,
        Pct (7205759403792797 / 2 ^ 59) ''s'' (5629499534213123 / 2 ^ 52) ''Z'',
        Indent, Indent, Pct (1 / 2) ''s'' 50 ''V'',
        Indent, Indent, Pct (1 / 4) ''s'' 25 ''W'',
        Indent, Indent, Pct (1 / 8) ''s'' (25 / 2) ''X'',
        Indent, Indent, Pct (1 / 16) ''s'' (25 / 4) ''Y'',
        Indent, Indent,
        Pct (225179981368525 / 2 ^ 52) ''s'' (5629499534213125 / 2 ^ 50) ''[unaccounted]'']))"
    by (simp add: print_eval scenario_boundary_nodes) (simp_all add: float64_eval)
  have e6: "print_node 6 1 1 (scenario_at_literal, []) =
     Some (Inr (scenario_at_literal,
       [Indent, Indent, Pct (1 / 2) ''s'' 50 ''V'',
        Indent, Indent, Pct (1 / 4) ''s'' 25 ''W'',
        Indent, Indent, Pct (1 / 8) ''s'' (25 / 2) ''X'',
        Indent, Indent, Pct (1 / 16) ''s'' (25 / 4) ''Y'',
        Indent, Indent,
        Pct (900719925474099 / 2 ^ 56) ''s'' (5629499534213119 / 2 ^ 52) ''Z'']))"
    by (simp add: print_eval scenario_at_literal_nodes) (simp_all add: float64_eval)
  have c: "\<not> get_averaged_float64 (heap scenario_wide ! 1) < threshold_1us"
    "childs (heap scenario_wide ! 1) = [2, 3]"
    "\<not> get_averaged_float64 (heap scenario_wide ! 4) < threshold_1us"
    "childs (heap scenario_wide ! 4) = [5, 6]"
    "\<not> get_averaged_float64 (heap scenario_wide ! 2) < threshold_1us"
    "childs (heap scenario_wide ! 2) = []"
    "get_averaged_float64 (heap scenario_wide ! 0) < threshold_1us"
    "childs (heap scenario_wide ! 0) = [1, 4]"
    "\<not> get_averaged_float64 (heap scenario_boundary ! 1) < threshold_1us"
    "childs (heap scenario_boundary ! 1) = [2, 3, 4, 5, 6]"
    "\<not> get_averaged_float64 (heap scenario_at_literal ! 1) < threshold_1us"
    "childs (heap scenario_at_literal ! 1) = [2, 3, 4, 5, 6]"
    by (simp_all add: scenario_wide_nodes scenario_boundary_nodes scenario_at_literal_nodes
        threshold_1us_def)
  have r: "running_remainder scenario_wide (get_averaged_float64 (heap scenario_wide ! 1)) [2, 3] =
      5 / 32"
    "float64_mul (get_averaged_float64 (heap scenario_wide ! 1)) literal_0_05 =
      3602879701896397 / 2 ^ 58"
    "running_remainder scenario_wide (get_averaged_float64 (heap scenario_wide ! 4)) [5, 6] = 0"
    "float64_mul (get_averaged_float64 (heap scenario_wide ! 4)) literal_0_05 =
      3602879701896397 / 2 ^ 61"
    by (simp_all add: running_remainder_def scenario_wide_nodes) (simp_all add: float64_eval)
  have rb: "running_remainder scenario_boundary (get_averaged_float64 (heap scenario_boundary ! 1))
      [2, 3, 4, 5, 6] = 225179981368525 / 2 ^ 52"
    "float64_mul (get_averaged_float64 (heap scenario_boundary ! 1)) literal_0_05 =
      3602879701896397 / 2 ^ 56"
    by (simp_all add: running_remainder_def scenario_boundary_nodes)
      (simp_all add: float64_eval)
  have h1: "1 < length (heap scenario_wide)" "length (heap scenario_wide) - 1 \<le> Suc 5"
    "INT_MIN \<le> 1 + 1" "1 + int (length (heap scenario_wide) - 1) \<le> INT_MAX"
    by (simp_all add: scenario_wide_def INT_MIN_def INT_MAX_def)
  have h2: "4 < length (heap scenario_wide)" "length (heap scenario_wide) - 4 \<le> Suc 2"
    "INT_MIN \<le> 1 + 1" "1 + int (length (heap scenario_wide) - 4) \<le> INT_MAX"
    by (simp_all add: scenario_wide_def INT_MIN_def INT_MAX_def)
  have h3: "2 < length (heap scenario_wide)" "length (heap scenario_wide) - 2 \<le> Suc 4"
    "INT_MIN \<le> 2 + 1" "2 + int (length (heap scenario_wide) - 2) \<le> INT_MAX"
    by (simp_all add: scenario_wide_def INT_MIN_def INT_MAX_def)
  have h4: "0 < length (heap scenario_wide)" "length (heap scenario_wide) - 0 \<le> Suc 6"
    "INT_MIN \<le> 0 + 1" "0 + int (length (heap scenario_wide) - 0) \<le> INT_MAX"
    by (simp_all add: scenario_wide_def INT_MIN_def INT_MAX_def)
  have h5: "1 < length (heap scenario_boundary)" "length (heap scenario_boundary) - 1 \<le> Suc 5"
    "INT_MIN \<le> 1 + 1" "1 + int (length (heap scenario_boundary) - 1) \<le> INT_MAX"
    by (simp_all add: scenario_boundary_def INT_MIN_def INT_MAX_def)
  have rl: "running_remainder scenario_at_literal
      (get_averaged_float64 (heap scenario_at_literal ! 1)) [2, 3, 4, 5, 6] =
      3602879701896397 / 2 ^ 56"
    "float64_mul (get_averaged_float64 (heap scenario_at_literal ! 1)) literal_0_05 =
      3602879701896397 / 2 ^ 56"
    by (simp_all add: running_remainder_def scenario_at_literal_nodes)
      (simp_all add: float64_eval)
  have h6: "1 < length (heap scenario_at_literal)"
    "length (heap scenario_at_literal) - 1 \<le> Suc 5"
    "INT_MIN \<le> 1 + 1" "1 + int (length (heap scenario_at_literal) - 1) \<le> INT_MAX"
    by (simp_all add: scenario_at_literal_def INT_MIN_def INT_MAX_def)
  from unaccounted_line_iff_above_threshold[OF w h1, of "[]"]
    unaccounted_line_iff_above_threshold[OF w h2, of "[]"]
    unaccounted_line_iff_above_threshold[OF w h3, of "[]"]
    unaccounted_line_iff_above_threshold[OF w h4, of "[]"]
    unaccounted_line_iff_above_threshold[OF wb h5, of "[]"]
    unaccounted_line_iff_above_threshold[OF wl h6, of "[]"]
  show ?thesis using e1 e2 e3 e4 e5 e6 c r rb rl w wb wl by simp
qed

text \<open>
  As worded, for every node and with the remainder and the 5% in exact arithmetic, the
  equivalence fails in two ways.

  After A has run for \<open>1 / 2 ^ 20\<close> second, a little less than a microsecond, with B
  inside it for \<open>1 / 2 ^ 22\<close> second, the node of A has a child and a remainder of 75%
  of its averaged total, which is below the threshold: the report lists B in seconds
  and has no \<open>[unaccounted]\<close> line.

  In the profile at the boundary, the averaged times of the children of A sum to more
  than 95% of the averaged total of A, so the exact remainder is below 5% of it. The
  first subtraction of the code, \<open>1 - 7205759403792797 / 2 ^ 59\<close>, is rounded upwards,
  the others are exact, and the remainder that the code compares exceeds the product
  with the literal \<^verbatim>\<open>0.05\<close>: the report has an \<open>[unaccounted]\<close> line.
\<close>

theorem unaccounted_line_missing_below_threshold:
  "run [Begin ''A'' 0, Begin ''B'' 0, End (1 / 2 ^ 22), End (1 / 2 ^ 20)]
     ([], ProfilerRecords_new) = Inr ([], short_regions) \<and>
   childs (heap short_regions ! 1) \<noteq> [] \<and>
   get_averaged (heap short_regions ! 1) -
     childs_averaged short_regions (childs (heap short_regions ! 1))
     > get_averaged (heap short_regions ! 1) * 0.05 \<and>
   print_all 3 (short_regions, []) =
     Some (Inr (short_regions,
       [Title ''[Taichi Profiler]'', Indent, Plain (1 / 2 ^ 21) ''A'', Indent, Indent,
        Plain (1 / 2 ^ 23) ''B''])) \<and>
   run [Begin ''A'' 0, Begin ''Z'' 0, End (7205759403792797 / 2 ^ 58),
        Begin ''V'' (1 / 32), End (33 / 32), Begin ''W'' (33 / 32), End (49 / 32),
        Begin ''X'' (49 / 32), End (57 / 32), Begin ''Y'' (57 / 32), End (61 / 32), End 2]
     ([], ProfilerRecords_new) = Inr ([], scenario_boundary) \<and>
   childs (heap scenario_boundary ! 1) \<noteq> [] \<and>
   get_averaged (heap scenario_boundary ! 1) -
     childs_averaged scenario_boundary (childs (heap scenario_boundary ! 1))
     < get_averaged (heap scenario_boundary ! 1) * 0.05 \<and>
   print_all 7 (scenario_boundary, []) =
     Some (Inr (scenario_boundary,
       [Title ''[Taichi Profiler]'', Indent, Plain 1 ''A'',
        Indent, Indent,
        Pct (7205759403792797 / 2 ^ 59) ''s'' (5629499534213123 / 2 ^ 52) ''Z'',
        Indent, Indent, Pct (1 / 2) ''s'' 50 ''V'',
        Indent, Indent, Pct (1 / 4) ''s'' 25 ''W'',
        Indent, Indent, Pct (1 / 8) ''s'' (25 / 2) ''X'',
        Indent, Indent, Pct (1 / 16) ''s'' (25 / 4) ''Y'',
        Indent, Indent,
        Pct (225179981368525 / 2 ^ 52) ''s'' (5629499534213125 / 2 ^ 50) ''[unaccounted]'']))"
proof (intro conjI)
  show "run [Begin ''A'' 0, Begin ''B'' 0, End (1 / 2 ^ 22), End (1 / 2 ^ 20)]
     ([], ProfilerRecords_new) = Inr ([], short_regions)"
    by (rule short_regions_run)
  show "childs (heap short_regions ! 1) \<noteq> []"
    by (simp add: short_regions_def)
  show "get_averaged (heap short_regions ! 1) -
     childs_averaged short_regions (childs (heap short_regions ! 1))
     > get_averaged (heap short_regions ! 1) * 0.05"
    by (simp add: short_regions_def get_averaged_def childs_averaged_def)
  show "print_all 3 (short_regions, []) =
     Some (Inr (short_regions,
       [Title ''[Taichi Profiler]'', Indent, Plain (1 / 2 ^ 21) ''A'', Indent, Indent,
        Plain (1 / 2 ^ 23) ''B'']))"
    by (simp add: print_eval short_regions_nodes)
  show "run [Begin ''A'' 0, Begin ''Z'' 0, End (7205759403792797 / 2 ^ 58),
        Begin ''V'' (1 / 32), End (33 / 32), Begin ''W'' (33 / 32), End (49 / 32),
        Begin ''X'' (49 / 32), End (57 / 32), Begin ''Y'' (57 / 32), End (61 / 32), End 2]
     ([], ProfilerRecords_new) = Inr ([], scenario_boundary)"
    by (rule scenario_boundary_run)
  show "childs (heap scenario_boundary ! 1) \<noteq> []"
    by (simp add: scenario_boundary_def)
  show "get_averaged (heap scenario_boundary ! 1) -
     childs_averaged scenario_boundary (childs (heap scenario_boundary ! 1))
     < get_averaged (heap scenario_boundary ! 1) * 0.05"
    by (simp add: scenario_boundary_def get_averaged_def childs_averaged_def)
  show "print_all 7 (scenario_boundary, []) =
     Some (Inr (scenario_boundary,
       [Title ''[Taichi Profiler]'', Indent, Plain 1 ''A'',
        Indent, Indent,
        Pct (7205759403792797 / 2 ^ 59) ''s'' (5629499534213123 / 2 ^ 52) ''Z'',
        Indent, Indent, Pct (1 / 2) ''s'' 50 ''V'',
        Indent, Indent, Pct (1 / 4) ''s'' 25 ''W'',
        Indent, Indent, Pct (1 / 8) ''s'' (25 / 2) ''X'',
        Indent, Indent, Pct (1 / 16) ''s'' (25 / 4) ''Y'',
        Indent, Indent,
        Pct (225179981368525 / 2 ^ 52) ''s'' (5629499534213125 / 2 ^ 50) ''[unaccounted]'']))"
    by (simp add: print_eval scenario_boundary_nodes) (simp_all add: float64_eval)
qed

end
